theory Spec2Isabelle
  imports Main
begin

section \<open>Python values used by the address book\<close>

text \<open>
  A Python \<open>str\<close> is modelled as a \<^typ>\<open>string\<close>, and a \<^typ>\<open>char\<close> is read as the Unicode
  code point of the same number: the model covers the strings over U+0000..U+00FF.
  On that range the predicates of the interpreter that the program calls
  (\<open>str.isdigit\<close>, \<open>str.isspace\<close>, \<open>str.lower\<close>, the regular expression class \<open>\d\<close>) are
  written out in full below.

  Every exception the program can meet is a value of \<open>error\<close>, carrying the text
  that \<open>str(e)\<close> returns. The program raises \<open>ValueError\<close> both for a malformed
  field and for a missing contact or phone; the two are told apart by the message only.
\<close>

datatype error =
    ValueError string
  | IndexError string
  | OverflowError string
  | EOFError string
  | UnpicklingError string

fun message :: "error \<Rightarrow> string" where
  "message (ValueError m) = m"
| "message (IndexError m) = m"
| "message (OverflowError m) = m"
| "message (EOFError m) = m"
| "message (UnpicklingError m) = m"

definition ord :: "char \<Rightarrow> nat" where
  "ord c = of_char c"

text \<open>The decimal digits \<open>0\<close>..\<open>9\<close>: the only characters of category Nd below U+0100.\<close>

definition is_decimal :: "char \<Rightarrow> bool" where
  "is_decimal c = (48 \<le> ord c \<and> ord c \<le> 57)"

definition is_ascii :: "char \<Rightarrow> bool" where
  "is_ascii c = (ord c < 128)"

text \<open>
  \<open>str.isdigit\<close> holds of a character whose Unicode property Numeric_Type is Digit or
  Decimal. Below U+0100 these are \<open>0\<close>..\<open>9\<close> and the superscripts U+00B2, U+00B3 and
  U+00B9. On a string, it asks for at least one character and for all of them to be
  digits.
\<close>

definition isdigit_char :: "char \<Rightarrow> bool" where
  "isdigit_char c = (is_decimal c \<or> ord c = 178 \<or> ord c = 179 \<or> ord c = 185)"

definition isdigit :: "string \<Rightarrow> bool" where
  "isdigit s = (s \<noteq> [] \<and> list_all isdigit_char s)"

section \<open>Field validators\<close>

text \<open>
  \<open>Field\<close> holds one attribute, \<open>value\<close>. \<open>Name\<close>, \<open>Phone\<close> and \<open>Birthday\<close> add no
  attribute: they differ in what their constructor accepts.
\<close>

datatype Field = Field (fvalue: string)

definition Name_init :: "string \<Rightarrow> error + Field" where
  "Name_init v = (if v = [] then Inl (ValueError ''Name cannot be empty'') else Inr (Field v))"

definition Phone_init :: "string \<Rightarrow> error + Field" where
  "Phone_init v =
     (if \<not> isdigit v \<or> length v \<noteq> 10
      then Inl (ValueError ''Phone must contain exactly 10 digits'')
      else Inr (Field v))"

section \<open>Calendar dates\<close>

text \<open>
  The program reads the calendar through \<open>datetime.date\<close>: construction with its range
  checks, \<open>replace(year=...)\<close>, comparison, difference in days, \<open>weekday()\<close>, addition
  of a \<open>timedelta\<close> of one or two days, and \<open>strftime\<close>/\<open>strptime\<close> with the format
  \<open>%d.%m.%Y\<close>. A date is its three fields; the proleptic Gregorian ordinal counts
  1 January of year 1 as day 1.
\<close>

record date =
  year :: int
  month :: int
  day :: int

definition is_leap :: "int \<Rightarrow> bool" where
  "is_leap y = (y mod 4 = 0 \<and> (y mod 100 \<noteq> 0 \<or> y mod 400 = 0))"

definition days_in_month :: "int \<Rightarrow> int \<Rightarrow> int" where
  "days_in_month y m =
     (if m = 2 then (if is_leap y then 29 else 28)
      else if m = 4 \<or> m = 6 \<or> m = 9 \<or> m = 11 then 30
      else 31)"

definition days_before_year :: "int \<Rightarrow> int" where
  "days_before_year y = (y - 1) * 365 + (y - 1) div 4 - (y - 1) div 100 + (y - 1) div 400"

definition days_before_month :: "int \<Rightarrow> int \<Rightarrow> int" where
  "days_before_month y m = sum_list (map (days_in_month y) [1..m - 1])"

definition valid_date :: "date \<Rightarrow> bool" where
  "valid_date d =
     (1 \<le> year d \<and> year d \<le> 9999 \<and> 1 \<le> month d \<and> month d \<le> 12
      \<and> 1 \<le> day d \<and> day d \<le> days_in_month (year d) (month d))"

text \<open>Decimal rendering of a natural number, as \<open>str(n)\<close> and \<open>%i\<close> give it.\<close>

fun str_nat :: "nat \<Rightarrow> string" where
  "str_nat n =
     (if n < 10 then [char_of (48 + n)]
      else str_nat (n div 10) @ [char_of (48 + n mod 10)])"

declare str_nat.simps [simp del]

text \<open>
  The constructor \<open>date(y, m, d)\<close> checks the year, then the month, then the day, and
  raises \<open>ValueError\<close> on the first that is out of range.
\<close>

definition date_init :: "int \<Rightarrow> int \<Rightarrow> int \<Rightarrow> error + date" where
  "date_init y m d =
     (if y < 1 \<or> 9999 < y then Inl (ValueError (''year '' @ str_nat (nat y) @ '' is out of range''))
      else if m < 1 \<or> 12 < m then Inl (ValueError ''month must be in 1..12'')
      else if d < 1 \<or> days_in_month y m < d then Inl (ValueError ''day is out of range for month'')
      else Inr \<lparr>year = y, month = m, day = d\<rparr>)"

definition replace_year :: "date \<Rightarrow> int \<Rightarrow> error + date" where
  "replace_year d y = date_init y (month d) (day d)"

definition toordinal :: "date \<Rightarrow> int" where
  "toordinal d = days_before_year (year d) + days_before_month (year d) (month d) + day d"

text \<open>\<open>weekday()\<close>: Monday is 0, Saturday 5, Sunday 6.\<close>

definition weekday :: "date \<Rightarrow> int" where
  "weekday d = (toordinal d + 6) mod 7"

definition date_less :: "date \<Rightarrow> date \<Rightarrow> bool" where
  "date_less a b =
     (year a < year b \<or> (year a = year b \<and>
        (month a < month b \<or> (month a = month b \<and> day a < day b))))"

text \<open>\<open>(a - b).days\<close>\<close>

definition days_between :: "date \<Rightarrow> date \<Rightarrow> int" where
  "days_between a b = toordinal a - toordinal b"

definition next_day :: "date \<Rightarrow> date" where
  "next_day d =
     (if day d < days_in_month (year d) (month d) then d\<lparr>day := day d + 1\<rparr>
      else if month d < 12 then \<lparr>year = year d, month = month d + 1, day = 1\<rparr>
      else \<lparr>year = year d + 1, month = 1, day = 1\<rparr>)"

text \<open>
  \<open>d + timedelta(days=n)\<close> for \<open>n \<ge> 0\<close>: the date \<open>n\<close> days later, and \<open>OverflowError\<close>
  when that date lies after 31 December 9999.
\<close>

definition add_days :: "date \<Rightarrow> nat \<Rightarrow> error + date" where
  "add_days d n =
     (let r = (next_day ^^ n) d
      in if 9999 < year r then Inl (OverflowError ''date value out of range'') else Inr r)"

definition zfill :: "nat \<Rightarrow> string \<Rightarrow> string" where
  "zfill w s = replicate (w - length s) (CHR ''0'') @ s"

text \<open>
  \<open>strftime("%d.%m.%Y")\<close>, with the year written on four digits. For the years from
  1000 on, which are those of \<open>date.today()\<close>, every platform writes it so.
\<close>

definition strftime :: "date \<Rightarrow> string" where
  "strftime d =
     zfill 2 (str_nat (nat (day d))) @ ''.'' @ zfill 2 (str_nat (nat (month d))) @ ''.''
       @ zfill 4 (str_nat (nat (year d)))"

subsection \<open>Parsing with the format \<open>%d.%m.%Y\<close>\<close>

text \<open>
  \<open>strptime\<close> compiles the format to the regular expression
  \<open>(3[0-1]|[1-2]\d|0[1-9]|[1-9]| [1-9])\.(1[0-2]|0[1-9]|[1-9])\.(\d\d\d\d)\<close>, matches it at
  the start of the string, refuses a string with characters left after the match, and
  passes the three numbers to the constructor of \<open>date\<close>. No alternative of the first two
  groups holds a dot, so the text of the first group is what stands before the first
  dot, the text of the second what stands between the first two dots, and the year is
  all that follows. Every failure is a \<open>ValueError\<close>.
\<close>

definition digit_val :: "char \<Rightarrow> int" where
  "digit_val c = int (ord c) - 48"

definition nonzero_digit :: "char \<Rightarrow> bool" where
  "nonzero_digit c = (is_decimal c \<and> c \<noteq> CHR ''0'')"

fun match_d :: "string \<Rightarrow> int option" where
  "match_d [a] = (if nonzero_digit a then Some (digit_val a) else None)"
| "match_d [a, b] =
     (if a = CHR ''3'' \<and> (b = CHR ''0'' \<or> b = CHR ''1'') then Some (30 + digit_val b)
      else if (a = CHR ''1'' \<or> a = CHR ''2'') \<and> is_decimal b then Some (10 * digit_val a + digit_val b)
      else if a = CHR ''0'' \<and> nonzero_digit b then Some (digit_val b)
      else if a = CHR '' '' \<and> nonzero_digit b then Some (digit_val b)
      else None)"
| "match_d _ = None"

fun match_m :: "string \<Rightarrow> int option" where
  "match_m [a] = (if nonzero_digit a then Some (digit_val a) else None)"
| "match_m [a, b] =
     (if a = CHR ''1'' \<and> (b = CHR ''0'' \<or> b = CHR ''1'' \<or> b = CHR ''2'') then Some (10 + digit_val b)
      else if a = CHR ''0'' \<and> nonzero_digit b then Some (digit_val b)
      else None)"
| "match_m _ = None"

fun match_Y :: "string \<Rightarrow> int option" where
  "match_Y [a, b, c, d] =
     (if is_decimal a \<and> is_decimal b \<and> is_decimal c \<and> is_decimal d
      then Some (1000 * digit_val a + 100 * digit_val b + 10 * digit_val c + digit_val d)
      else None)"
| "match_Y _ = None"

definition not_dot :: "char \<Rightarrow> bool" where
  "not_dot c = (c \<noteq> CHR ''.'')"

definition strptime :: "string \<Rightarrow> error + date" where
  "strptime s =
     (case dropWhile not_dot s of
        [] \<Rightarrow> Inl (ValueError ''time data does not match format'')
      | _ # r1 \<Rightarrow>
         (case dropWhile not_dot r1 of
            [] \<Rightarrow> Inl (ValueError ''time data does not match format'')
          | _ # r2 \<Rightarrow>
             (case match_d (takeWhile not_dot s) of
                None \<Rightarrow> Inl (ValueError ''time data does not match format'')
              | Some dv \<Rightarrow>
                 (case match_m (takeWhile not_dot r1) of
                    None \<Rightarrow> Inl (ValueError ''time data does not match format'')
                  | Some mv \<Rightarrow>
                     (case match_Y (take 4 r2) of
                        None \<Rightarrow> Inl (ValueError ''time data does not match format'')
                      | Some yv \<Rightarrow>
                         if 4 < length r2 then Inl (ValueError ''unconverted data remains'')
                         else date_init yv mv dv)))))"

text \<open>
  \<open>Birthday\<close> keeps the string it was given and parses it again whenever the date is
  asked for; any \<open>ValueError\<close> of the parser becomes the constructor's own.
\<close>

definition Birthday_init :: "string \<Rightarrow> error + Field" where
  "Birthday_init v =
     (case strptime v of
        Inl (ValueError _) \<Rightarrow> Inl (ValueError ''Invalid date format. Use DD.MM.YYYY'')
      | Inl e \<Rightarrow> Inl e
      | Inr _ \<Rightarrow> Inr (Field v))"

definition date_obj :: "Field \<Rightarrow> error + date" where
  "date_obj b = strptime (fvalue b)"

text \<open>
  The strings that \<open>Birthday\<close> is to accept, in the words of the calendar rather than of
  the parser: a day field of one or two digits, or of a blank and a digit; a month field
  of one or two digits; a year field of four digits. \<open>number\<close> is the decimal value of
  a field, a blank counting as nothing.
\<close>

definition number :: "string \<Rightarrow> int" where
  "number s = foldl (\<lambda>n c. 10 * n + (if is_decimal c then digit_val c else 0)) 0 s"

fun day_field :: "string \<Rightarrow> bool" where
  "day_field [a] = is_decimal a"
| "day_field [a, b] = ((is_decimal a \<or> a = CHR '' '') \<and> is_decimal b)"
| "day_field _ = False"

fun month_field :: "string \<Rightarrow> bool" where
  "month_field [a] = is_decimal a"
| "month_field [a, b] = (is_decimal a \<and> is_decimal b)"
| "month_field _ = False"

fun year_field :: "string \<Rightarrow> bool" where
  "year_field [a, b, c, d] = (is_decimal a \<and> is_decimal b \<and> is_decimal c \<and> is_decimal d)"
| "year_field _ = False"

section \<open>Contact record\<close>

text \<open>
  A method that mutates its object returns the exception it raised, if any, together
  with the object as the call leaves it.
\<close>

record Record =
  name :: Field
  phones :: "Field list"
  birthday :: "Field option"

definition Record_init :: "string \<Rightarrow> error + Record" where
  "Record_init nm =
     (case Name_init nm of
        Inl e \<Rightarrow> Inl e
      | Inr n \<Rightarrow> Inr \<lparr>name = n, phones = [], birthday = None\<rparr>)"

definition add_phone :: "Record \<Rightarrow> string \<Rightarrow> error option \<times> Record" where
  "add_phone r phone =
     (case Phone_init phone of
        Inl e \<Rightarrow> (Some e, r)
      | Inr p \<Rightarrow> (None, r\<lparr>phones := phones r @ [p]\<rparr>))"

text \<open>
  The loop of \<open>edit_phone\<close> over \<open>enumerate(self.phones)\<close>, from index \<open>i\<close> on: the first
  phone whose value equals \<open>old_phone\<close> is replaced by \<open>Phone(new_phone)\<close>, which is
  built, and may raise, before the assignment.
\<close>

function edit_phone_loop :: "Field list \<Rightarrow> nat \<Rightarrow> string \<Rightarrow> string \<Rightarrow> error + Field list" where
  "edit_phone_loop ps i old_phone new_phone =
     (if i < length ps then
        (if fvalue (ps ! i) = old_phone then
           (case Phone_init new_phone of
              Inl e \<Rightarrow> Inl e
            | Inr p \<Rightarrow> Inr (ps[i := p]))
         else edit_phone_loop ps (Suc i) old_phone new_phone)
      else Inl (ValueError ''Phone not found''))"
  by pat_completeness auto
termination
  by (relation "measure (\<lambda>(ps, i, old_phone, new_phone). length ps - i)") auto

declare edit_phone_loop.simps [simp del]

definition edit_phone :: "Record \<Rightarrow> string \<Rightarrow> string \<Rightarrow> error option \<times> Record" where
  "edit_phone r old_phone new_phone =
     (case edit_phone_loop (phones r) 0 old_phone new_phone of
        Inl e \<Rightarrow> (Some e, r)
      | Inr ps \<Rightarrow> (None, r\<lparr>phones := ps\<rparr>))"

definition add_birthday :: "Record \<Rightarrow> string \<Rightarrow> error option \<times> Record" where
  "add_birthday r b =
     (case Birthday_init b of
        Inl e \<Rightarrow> (Some e, r)
      | Inr f \<Rightarrow> (None, r\<lparr>birthday := Some f\<rparr>))"

text \<open>\<open>sep.join(xs)\<close>\<close>

fun join :: "string \<Rightarrow> string list \<Rightarrow> string" where
  "join sep [] = []"
| "join sep [x] = x"
| "join sep (x # y # ys) = x @ sep @ join sep (y # ys)"

definition Record_str :: "Record \<Rightarrow> string" where
  "Record_str r =
     ''Contact name: '' @ fvalue (name r) @ '', phones: '' @ join ''; '' (map fvalue (phones r))
       @ (case birthday r of None \<Rightarrow> [] | Some b \<Rightarrow> '', birthday: '' @ fvalue b)"

section \<open>Address book\<close>

text \<open>
  The book is the dictionary \<open>data\<close> of a \<open>UserDict\<close>: the pairs of key and record in
  insertion order, with no key twice. Assigning to a key that is present replaces its
  value where it stands; a new key goes to the end.
\<close>

type_synonym AddressBook = "(string \<times> Record) list"

fun dict_set :: "string \<Rightarrow> Record \<Rightarrow> AddressBook \<Rightarrow> AddressBook" where
  "dict_set k v [] = [(k, v)]"
| "dict_set k v ((k', v') # d) = (if k' = k then (k, v) # d else (k', v') # dict_set k v d)"

definition add_record :: "Record \<Rightarrow> AddressBook \<Rightarrow> AddressBook" where
  "add_record record book = dict_set (fvalue (name record)) record book"

definition find_record :: "string \<Rightarrow> AddressBook \<Rightarrow> Record option" where
  "find_record nm book = map_of book nm"

text \<open>
  \<open>find\<close> returns the record object that the book holds, not a copy: what a method does
  to that object is done to the entry of the book, where it stands. \<open>store_record\<close>
  expresses this for the entry under a key; it is no statement of the program, it
  never adds a key, and a book without the key is left as it is.
\<close>

fun store_record :: "string \<Rightarrow> Record \<Rightarrow> AddressBook \<Rightarrow> AddressBook" where
  "store_record k r [] = []"
| "store_record k r ((k', v) # d) =
     (if k' = k then (k', r) # d else (k', v) # store_record k r d)"

record congratulation =
  contact :: string
  congratulation_date :: string

text \<open>
  This year's occurrence of the birthday, moved to next year when it lies before
  today. \<open>replace\<close> builds a new date and raises \<open>ValueError\<close> when there is no such day.
\<close>

definition occurrence :: "date \<Rightarrow> date \<Rightarrow> error + date" where
  "occurrence born today =
     (case replace_year born (year today) of
        Inl e \<Rightarrow> Inl e
      | Inr bday \<Rightarrow>
          if date_less bday today then replace_year bday (year today + 1) else Inr bday)"

definition shift_weekend :: "date \<Rightarrow> error + date" where
  "shift_weekend bday =
     (if weekday bday = 5 then add_days bday 2
      else if weekday bday = 6 then add_days bday 1
      else Inr bday)"

fun upcoming_loop ::
  "int \<Rightarrow> date \<Rightarrow> Record list \<Rightarrow> congratulation list \<Rightarrow> error + congratulation list" where
  "upcoming_loop days today [] result = Inr result"
| "upcoming_loop days today (r # rs) result =
     (case birthday r of
        None \<Rightarrow> upcoming_loop days today rs result
      | Some b \<Rightarrow>
         (case date_obj b of
            Inl e \<Rightarrow> Inl e
          | Inr born \<Rightarrow>
             (case occurrence born today of
                Inl e \<Rightarrow> Inl e
              | Inr bday \<Rightarrow>
                 if 0 \<le> days_between bday today \<and> days_between bday today \<le> days then
                   (case shift_weekend bday of
                      Inl e \<Rightarrow> Inl e
                    | Inr shifted \<Rightarrow>
                        upcoming_loop days today rs
                          (result @ [\<lparr>contact = fvalue (name r),
                                      congratulation_date = strftime shifted\<rparr>]))
                 else upcoming_loop days today rs result)))"

text \<open>\<open>date.today()\<close> is the argument \<open>today\<close>.\<close>

definition get_upcoming_birthdays ::
  "AddressBook \<Rightarrow> int \<Rightarrow> date \<Rightarrow> error + congratulation list" where
  "get_upcoming_birthdays book days today = upcoming_loop days today (map snd book) []"

text \<open>
  The specification's words for the same: the occurrence is the birthday's month and
  day in the year of today, or in the next year when that day lies before today, and a
  record is in the window when it has a birthday whose occurrence is at least 0 and at
  most \<open>days\<close> days after today.
\<close>

definition spec_occurrence :: "date \<Rightarrow> date \<Rightarrow> date" where
  "spec_occurrence born today =
     (if date_less \<lparr>year = year today, month = month born, day = day born\<rparr> today
      then \<lparr>year = year today + 1, month = month born, day = day born\<rparr>
      else \<lparr>year = year today, month = month born, day = day born\<rparr>)"

definition in_window :: "int \<Rightarrow> date \<Rightarrow> Record \<Rightarrow> bool" where
  "in_window days today r =
     (case birthday r of
        None \<Rightarrow> False
      | Some b \<Rightarrow>
         (case date_obj b of
            Inl e \<Rightarrow> False
          | Inr born \<Rightarrow>
              0 \<le> days_between (spec_occurrence born today) today
              \<and> days_between (spec_occurrence born today) today \<le> days))"

text \<open>
  The entry that the specification expects for a record inside the window: the name,
  and the occurrence after the weekend shift, as \<open>DD.MM.YYYY\<close>.
\<close>

definition reported :: "date \<Rightarrow> Record \<Rightarrow> congratulation \<Rightarrow> bool" where
  "reported today r e =
     (case birthday r of
        None \<Rightarrow> False
      | Some b \<Rightarrow>
         (case date_obj b of
            Inl err \<Rightarrow> False
          | Inr born \<Rightarrow>
             (case shift_weekend (spec_occurrence born today) of
                Inl err \<Rightarrow> False
              | Inr shifted \<Rightarrow>
                  e = \<lparr>contact = fvalue (name r), congratulation_date = strftime shifted\<rparr>)))"

definition AddressBook_str :: "AddressBook \<Rightarrow> string" where
  "AddressBook_str book =
     (if book = [] then ''Address book is empty''
      else join [CHR 0x0A] (map (\<lambda>(k, r). Record_str r) book))"

section \<open>Persistence\<close>

text \<open>
  The files are a map from file names to contents of a type \<open>'f\<close>. The serialisation of
  \<open>pickle\<close> is not part of the program: \<open>dumps\<close> and \<open>loads\<close> are parameters. Writing a
  file always succeeds here.
\<close>

type_synonym 'f files = "string \<Rightarrow> 'f option"

definition default_filename :: string where
  "default_filename = ''addressbook.pkl''"

definition save_data :: "(AddressBook \<Rightarrow> 'f) \<Rightarrow> AddressBook \<Rightarrow> string \<Rightarrow> 'f files \<Rightarrow> 'f files" where
  "save_data dumps book filename fs = fs(filename \<mapsto> dumps book)"

definition load_data :: "('f \<Rightarrow> error + AddressBook) \<Rightarrow> string \<Rightarrow> 'f files \<Rightarrow> error + AddressBook" where
  "load_data loads filename fs =
     (case fs filename of
        None \<Rightarrow> Inr []
      | Some content \<Rightarrow> loads content)"

section \<open>Command loop\<close>

text \<open>\<open>str.isspace\<close> and \<open>str.lower\<close> on the characters below U+0100.\<close>

definition isspace :: "char \<Rightarrow> bool" where
  "isspace c =
     ((9 \<le> ord c \<and> ord c \<le> 13) \<or> (28 \<le> ord c \<and> ord c \<le> 32) \<or> ord c = 133 \<or> ord c = 160)"

definition lower_char :: "char \<Rightarrow> char" where
  "lower_char c =
     (if (65 \<le> ord c \<and> ord c \<le> 90) \<or> (192 \<le> ord c \<and> ord c \<le> 222 \<and> ord c \<noteq> 215)
      then char_of (ord c + 32) else c)"

text \<open>\<open>s.split()\<close>: the maximal runs of characters that are not whitespace; \<open>w\<close> is the run being read.\<close>

fun split_from :: "string \<Rightarrow> string \<Rightarrow> string list" where
  "split_from w [] = (if w = [] then [] else [w])"
| "split_from w (c # cs) =
     (if isspace c then (if w = [] then split_from [] cs else w # split_from [] cs)
      else split_from (w @ [c]) cs)"

definition split :: "string \<Rightarrow> string list" where
  "split s = split_from [] s"

definition parse_input :: "string \<Rightarrow> error + string \<times> string list" where
  "parse_input user_input =
     (case split user_input of
        [] \<Rightarrow> Inl (IndexError ''list index out of range'')
      | p # ps \<Rightarrow> Inr (map lower_char p, ps))"

text \<open>
  The state of a run: the book, the files, and the lines printed so far. Unpacking
  \<open>args\<close> into a fixed number of names raises \<open>ValueError\<close> when the count differs; the
  text of that exception is the interpreter's (here as CPython up to 3.13 words it) and
  no property below depends on it. The date of \<open>date.today()\<close> is one argument for the
  whole run.
\<close>

record 'f state =
  book :: AddressBook
  files :: "'f files"
  printed :: "string list"

datatype flow = Continue | Break

definition show_message :: "string \<Rightarrow> 'f state \<Rightarrow> 'f state" where
  "show_message m st = st\<lparr>printed := printed st @ [m]\<rparr>"

definition help_text :: string where
  "help_text =
     [CHR 0x0A] @ ''Available commands:'' @ [CHR 0x0A] @ ''hello'' @ [CHR 0x0A]
     @ ''add <name> <phone>'' @ [CHR 0x0A]
     @ ''change <name> <old_phone> <new_phone>'' @ [CHR 0x0A]
     @ ''phone <name>'' @ [CHR 0x0A] @ ''all'' @ [CHR 0x0A]
     @ ''add-birthday <name> <DD.MM.YYYY>'' @ [CHR 0x0A]
     @ ''show-birthday <name>'' @ [CHR 0x0A] @ ''birthdays'' @ [CHR 0x0A]
     @ ''close / exit'' @ [CHR 0x0A]"

definition unpack_error :: "nat \<Rightarrow> nat \<Rightarrow> error" where
  "unpack_error expected got =
     (if got < expected
      then ValueError (''not enough values to unpack (expected '' @ str_nat expected
             @ '', got '' @ str_nat got @ '')'')
      else ValueError (''too many values to unpack (expected '' @ str_nat expected @ '')''))"

text \<open>
  The commands. After a method has raised, \<open>main\<close> does nothing more to the book: the
  state is the one reached before the call (the methods of \<open>Record\<close> raise before they
  assign, so the object is as it was). After a method has returned, its object is the
  entry of the book.
\<close>

definition cmd_add :: "string list \<Rightarrow> 'f state \<Rightarrow> (error + flow) \<times> 'f state" where
  "cmd_add args st =
     (case args of
        [nm, phone] \<Rightarrow>
          (case find_record nm (book st) of
             Some record \<Rightarrow>
               (case add_phone record phone of
                  (Some e, record') \<Rightarrow> (Inl e, st)
                | (None, record') \<Rightarrow>
                    (Inr Continue,
                     show_message ''Contact added.''
                       (st\<lparr>book := store_record nm record' (book st)\<rparr>)))
           | None \<Rightarrow>
               (case Record_init nm of
                  Inl e \<Rightarrow> (Inl e, st)
                | Inr record \<Rightarrow>
                    (let st1 = st\<lparr>book := add_record record (book st)\<rparr> in
                     case add_phone record phone of
                       (Some e, record') \<Rightarrow> (Inl e, st1)
                     | (None, record') \<Rightarrow>
                         (Inr Continue,
                          show_message ''Contact added.''
                            (st1\<lparr>book := store_record (fvalue (name record)) record' (book st1)\<rparr>)))))
      | _ \<Rightarrow> (Inl (unpack_error 2 (length args)), st))"

definition cmd_change :: "string list \<Rightarrow> 'f state \<Rightarrow> (error + flow) \<times> 'f state" where
  "cmd_change args st =
     (case args of
        [nm, old_phone, new_phone] \<Rightarrow>
          (case find_record nm (book st) of
             None \<Rightarrow> (Inl (ValueError ''Contact not found''), st)
           | Some record \<Rightarrow>
               (case edit_phone record old_phone new_phone of
                  (Some e, record') \<Rightarrow> (Inl e, st)
                | (None, record') \<Rightarrow>
                    (Inr Continue,
                     show_message ''Phone updated.''
                       (st\<lparr>book := store_record nm record' (book st)\<rparr>))))
      | _ \<Rightarrow> (Inl (unpack_error 3 (length args)), st))"

definition cmd_phone :: "string list \<Rightarrow> 'f state \<Rightarrow> (error + flow) \<times> 'f state" where
  "cmd_phone args st =
     (case args of
        [] \<Rightarrow> (Inl (IndexError ''list index out of range''), st)
      | nm # _ \<Rightarrow>
          (case find_record nm (book st) of
             None \<Rightarrow> (Inl (ValueError ''Contact not found''), st)
           | Some record \<Rightarrow>
               (Inr Continue, show_message (join ''; '' (map fvalue (phones record))) st)))"

definition cmd_add_birthday :: "string list \<Rightarrow> 'f state \<Rightarrow> (error + flow) \<times> 'f state" where
  "cmd_add_birthday args st =
     (case args of
        [nm, bday] \<Rightarrow>
          (case find_record nm (book st) of
             None \<Rightarrow> (Inl (ValueError ''Contact not found''), st)
           | Some record \<Rightarrow>
               (case add_birthday record bday of
                  (Some e, record') \<Rightarrow> (Inl e, st)
                | (None, record') \<Rightarrow>
                    (Inr Continue,
                     show_message ''Birthday added.''
                       (st\<lparr>book := store_record nm record' (book st)\<rparr>))))
      | _ \<Rightarrow> (Inl (unpack_error 2 (length args)), st))"

definition cmd_show_birthday :: "string list \<Rightarrow> 'f state \<Rightarrow> (error + flow) \<times> 'f state" where
  "cmd_show_birthday args st =
     (case args of
        [] \<Rightarrow> (Inl (IndexError ''list index out of range''), st)
      | nm # _ \<Rightarrow>
          (case find_record nm (book st) of
             None \<Rightarrow> (Inr Continue, show_message ''No birthday set.'' st)
           | Some record \<Rightarrow>
               (case birthday record of
                  None \<Rightarrow> (Inr Continue, show_message ''No birthday set.'' st)
                | Some b \<Rightarrow> (Inr Continue, show_message (fvalue b) st))))"

definition cmd_birthdays :: "date \<Rightarrow> 'f state \<Rightarrow> (error + flow) \<times> 'f state" where
  "cmd_birthdays today st =
     (case get_upcoming_birthdays (book st) 7 today of
        Inl e \<Rightarrow> (Inl e, st)
      | Inr upcoming \<Rightarrow>
          if upcoming = [] then (Inr Continue, show_message ''No upcoming birthdays.'' st)
          else (Inr Continue,
                fold (\<lambda>u. show_message (contact u @ '': '' @ congratulation_date u)) upcoming st))"

text \<open>The body of the \<open>try\<close> statement, for one parsed command.\<close>

definition execute ::
  "(AddressBook \<Rightarrow> 'f) \<Rightarrow> date \<Rightarrow> string \<Rightarrow> string list \<Rightarrow> 'f state \<Rightarrow> (error + flow) \<times> 'f state" where
  "execute dumps today command args st =
     (if command = ''exit'' \<or> command = ''close'' then
        (Inr Break,
         show_message ''Good bye!''
           (st\<lparr>files := save_data dumps (book st) default_filename (files st)\<rparr>))
      else if command = ''hello'' then (Inr Continue, show_message ''How can I help you?'' st)
      else if command = ''add'' then cmd_add args st
      else if command = ''change'' then cmd_change args st
      else if command = ''phone'' then cmd_phone args st
      else if command = ''all'' then (Inr Continue, show_message (AddressBook_str (book st)) st)
      else if command = ''add-birthday'' then cmd_add_birthday args st
      else if command = ''show-birthday'' then cmd_show_birthday args st
      else if command = ''birthdays'' then cmd_birthdays today st
      else (Inr Continue, show_message ''Invalid command.'' st))"

text \<open>
  The \<open>while True\<close> loop over the lines that \<open>input\<close> returns. The line is read and
  parsed before the \<open>try\<close> statement is entered, so an exception of \<open>parse_input\<close>, like
  the \<open>EOFError\<close> of \<open>input\<close> at the end of the input, ends the process; an exception of
  the body is printed and the loop goes on.
\<close>

datatype 'f run = Exited "'f state" | Crashed error "'f state"

fun main_loop :: "(AddressBook \<Rightarrow> 'f) \<Rightarrow> date \<Rightarrow> string list \<Rightarrow> 'f state \<Rightarrow> 'f run" where
  "main_loop dumps today [] st = Crashed (EOFError ''EOF when reading a line'') st"
| "main_loop dumps today (line # rest) st =
     (case parse_input line of
        Inl e \<Rightarrow> Crashed e st
      | Inr (command, args) \<Rightarrow>
          (case execute dumps today command args st of
             (Inr Break, st') \<Rightarrow> Exited st'
           | (Inr Continue, st') \<Rightarrow> main_loop dumps today rest st'
           | (Inl e, st') \<Rightarrow>
               main_loop dumps today rest (show_message (''Error: '' @ message e) st')))"

definition main ::
  "('f \<Rightarrow> error + AddressBook) \<Rightarrow> (AddressBook \<Rightarrow> 'f) \<Rightarrow> date \<Rightarrow> string list \<Rightarrow> 'f files \<Rightarrow> 'f run" where
  "main loads dumps today lines fs =
     (case load_data loads default_filename fs of
        Inl e \<Rightarrow> Crashed e \<lparr>book = [], files = fs, printed = []\<rparr>
      | Inr b \<Rightarrow>
          main_loop dumps today lines
            (show_message help_text
               (show_message ''Welcome to the assistant bot!''
                  \<lparr>book = b, files = fs, printed = []\<rparr>)))"

section \<open>Properties of the validators\<close>

lemma ord_inj: "ord c = ord d \<longleftrightarrow> c = d"
  unfolding ord_def by simp

lemma is_decimal_iff: "is_decimal c \<longleftrightarrow> c \<in> set ''0123456789''"
proof
  assume "is_decimal c"
  then have "ord c = 48 \<or> ord c = 49 \<or> ord c = 50 \<or> ord c = 51 \<or> ord c = 52 \<or> ord c = 53
      \<or> ord c = 54 \<or> ord c = 55 \<or> ord c = 56 \<or> ord c = 57"
    unfolding is_decimal_def by arith
  then have "ord c = ord CHR ''0'' \<or> ord c = ord CHR ''1'' \<or> ord c = ord CHR ''2''
      \<or> ord c = ord CHR ''3'' \<or> ord c = ord CHR ''4'' \<or> ord c = ord CHR ''5''
      \<or> ord c = ord CHR ''6'' \<or> ord c = ord CHR ''7'' \<or> ord c = ord CHR ''8''
      \<or> ord c = ord CHR ''9''"
    by (simp add: ord_def)
  then show "c \<in> set ''0123456789''"
    unfolding ord_inj by simp
next
  assume "c \<in> set ''0123456789''"
  then show "is_decimal c"
    unfolding is_decimal_def ord_def by auto
qed

lemma isdigit_char_iff:
  "isdigit_char c \<longleftrightarrow> c \<in> set ''0123456789'' \<union> {CHR 0xB2, CHR 0xB3, CHR 0xB9}"
proof -
  have "ord c = 178 \<longleftrightarrow> ord c = ord (CHR 0xB2)" "ord c = 179 \<longleftrightarrow> ord c = ord (CHR 0xB3)"
    "ord c = 185 \<longleftrightarrow> ord c = ord (CHR 0xB9)"
    by (simp_all add: ord_def)
  then show ?thesis
    unfolding isdigit_char_def is_decimal_iff ord_inj by blast
qed

lemma isdigit_iff:
  "isdigit s \<longleftrightarrow> s \<noteq> [] \<and> set s \<subseteq> set ''0123456789'' \<union> {CHR 0xB2, CHR 0xB3, CHR 0xB9}"
  unfolding isdigit_def list_all_iff isdigit_char_iff by blast

lemma isdigit_ascii:
  "list_all is_ascii s \<Longrightarrow> isdigit s \<longleftrightarrow> s \<noteq> [] \<and> set s \<subseteq> set ''0123456789''"
proof -
  assume a: "list_all is_ascii s"
  have "c \<in> set s \<Longrightarrow> isdigit_char c \<longleftrightarrow> is_decimal c" for c
    using a unfolding list_all_iff is_ascii_def isdigit_char_def by auto
  then have "list_all isdigit_char s \<longleftrightarrow> set s \<subseteq> set ''0123456789''"
    unfolding list_all_iff is_decimal_iff by blast
  then show ?thesis
    unfolding isdigit_def by simp
qed

text \<open>
  C4, as the code has it. \<open>Phone\<close> is built exactly from the strings of ten characters
  that \<open>str.isdigit\<close> accepts: the decimal digits \<open>0\<close>..\<open>9\<close> and, beyond ASCII, the other
  Unicode digits (below U+0100: the superscripts two, three and one). The value is
  stored unchanged, every refusal is the \<open>ValueError\<close> "Phone must contain exactly 10
  digits", and among the ASCII strings the accepted ones are exactly the strings of ten
  decimal digits.
\<close>

theorem Phone_init_accepts:
  "((\<exists>p. Phone_init s = Inr p) \<longleftrightarrow>
      length s = 10 \<and> set s \<subseteq> set ''0123456789'' \<union> {CHR 0xB2, CHR 0xB3, CHR 0xB9})
   \<and> (\<forall>p. Phone_init s = Inr p \<longrightarrow> fvalue p = s)
   \<and> ((\<nexists>p. Phone_init s = Inr p) \<longrightarrow>
        Phone_init s = Inl (ValueError ''Phone must contain exactly 10 digits''))
   \<and> (list_all is_ascii s \<longrightarrow>
        ((\<exists>p. Phone_init s = Inr p) \<longleftrightarrow> length s = 10 \<and> set s \<subseteq> set ''0123456789''))"
proof -
  have nonempty: "length s = 10 \<Longrightarrow> s \<noteq> []"
    by auto
  have "(\<exists>p. Phone_init s = Inr p) \<longleftrightarrow> isdigit s \<and> length s = 10"
    unfolding Phone_init_def by simp
  moreover have "\<forall>p. Phone_init s = Inr p \<longrightarrow> fvalue p = s"
    unfolding Phone_init_def by (auto split: if_splits)
  moreover have "(\<nexists>p. Phone_init s = Inr p) \<longrightarrow>
      Phone_init s = Inl (ValueError ''Phone must contain exactly 10 digits'')"
    unfolding Phone_init_def by simp
  ultimately show ?thesis
    using nonempty isdigit_iff [of s] isdigit_ascii [of s] by blast
qed

text \<open>The theorem at the phone number \<open>0123456789\<close>, which is accepted and stored as it is.\<close>

theorem Phone_init_accepts_witness:
  "length ''0123456789'' = 10
   \<and> list_all is_ascii ''0123456789''
   \<and> Phone_init ''0123456789'' = Inr (Field ''0123456789'')
   \<and> fvalue (Field ''0123456789'') = ''0123456789''"
proof -
  have ascii: "list_all is_ascii ''0123456789''"
    by (simp add: is_ascii_def ord_def)
  have "\<exists>p. Phone_init ''0123456789'' = Inr p"
    using Phone_init_accepts [of "''0123456789''"] ascii by simp
  then obtain p where p: "Phone_init ''0123456789'' = Inr p" ..
  then have "fvalue p = ''0123456789''"
    using Phone_init_accepts [of "''0123456789''"] by blast
  then have "p = Field ''0123456789''"
    by (cases p) simp
  with p ascii show ?thesis
    by simp
qed

text \<open>
  C4 as stated fails: the string of ten superscript twos (U+00B2) holds no character
  \<open>0\<close>..\<open>9\<close>, and \<open>Phone\<close> accepts it.
\<close>

theorem Phone_init_superscript_counterexample:
  "Phone_init [CHR 0xB2, CHR 0xB2, CHR 0xB2, CHR 0xB2, CHR 0xB2,
               CHR 0xB2, CHR 0xB2, CHR 0xB2, CHR 0xB2, CHR 0xB2]
     = Inr (Field [CHR 0xB2, CHR 0xB2, CHR 0xB2, CHR 0xB2, CHR 0xB2,
                   CHR 0xB2, CHR 0xB2, CHR 0xB2, CHR 0xB2, CHR 0xB2])
   \<and> CHR 0xB2 \<notin> set ''0123456789''"
  by (simp add: Phone_init_def isdigit_def isdigit_char_def is_decimal_def ord_def)

section \<open>Properties of the calendar\<close>

lemma days_before_month_first: "days_before_month y 1 = 0"
  by (simp add: days_before_month_def)

lemma days_before_month_step:
  "1 \<le> m \<Longrightarrow> days_before_month y (m + 1) = days_before_month y m + days_in_month y m"
proof -
  assume "1 \<le> m"
  then have "[1..m] = [1..m - 1] @ [m]"
    by (simp add: upto_rec2)
  then show ?thesis
    by (simp add: days_before_month_def)
qed

lemma days_before_month_december:
  "days_before_month y 12 + 31 = (if is_leap y then 366 else 365)"
proof -
  have "[1..11] = [1, 2, 3, 4, 5, 6, 7, 8, 9, 10, 11 :: int]"
    by (simp add: upto.simps)
  then show ?thesis
    by (simp add: days_before_month_def days_in_month_def)
qed

lemma div_succ:
  fixes z k :: int
  assumes "0 < k"
  shows "(z + 1) div k = z div k + (if (z + 1) mod k = 0 then 1 else 0)"
proof (cases "z mod k + 1 < k")
  case True
  have eq: "z + 1 = k * (z div k) + (z mod k + 1)"
    by simp
  have pos: "0 < z mod k + 1"
    using assms by (simp add: add_nonneg_pos)
  then have nonneg: "0 \<le> z mod k + 1"
    by simp
  have "(z + 1) div k = z div k"
    using int_div_pos_eq [OF eq nonneg True] .
  moreover have "(z + 1) mod k = z mod k + 1"
    using int_mod_pos_eq [OF eq nonneg True] .
  ultimately show ?thesis
    using pos by simp
next
  case False
  have "z mod k < k"
    using assms by simp
  with False have r: "z mod k + 1 = k"
    by simp
  have "z + 1 = k * (z div k) + (z mod k + 1)"
    by simp
  then have eq: "z + 1 = k * (z div k + 1) + 0"
    unfolding r by (simp add: algebra_simps)
  have "(z + 1) div k = z div k + 1"
    using int_div_pos_eq [OF eq _ assms] by simp
  moreover have "(z + 1) mod k = 0"
    using int_mod_pos_eq [OF eq _ assms] by simp
  ultimately show ?thesis
    by simp
qed

lemma mod_100_4: "y mod 100 = 0 \<Longrightarrow> y mod 4 = 0" for y :: int
proof -
  assume "y mod 100 = 0"
  then have "100 dvd y" by (simp add: dvd_eq_mod_eq_0)
  moreover have "(4::int) dvd 100" by simp
  ultimately have "4 dvd y" using dvd_trans by blast
  then show ?thesis by (simp add: dvd_eq_mod_eq_0)
qed

lemma mod_400_100: "y mod 400 = 0 \<Longrightarrow> y mod 100 = 0" for y :: int
proof -
  assume "y mod 400 = 0"
  then have "400 dvd y" by (simp add: dvd_eq_mod_eq_0)
  moreover have "(100::int) dvd 400" by simp
  ultimately have "100 dvd y" using dvd_trans by blast
  then show ?thesis by (simp add: dvd_eq_mod_eq_0)
qed

lemma div_pred:
  fixes z k :: int
  assumes "0 < k"
  shows "z div k = (z - 1) div k + (if z mod k = 0 then 1 else 0)"
  using div_succ [OF assms, of "z - 1"] by simp

text \<open>A year has 366 days when it is a leap year and 365 otherwise.\<close>

lemma days_before_year_step:
  "days_before_year (y + 1) = days_before_year y + (if is_leap y then 366 else 365)"
proof -
  define a where "a = (y - 1) div 4"
  define b where "b = (y - 1) div 100"
  define c where "c = (y - 1) div 400"
  define p4 where "p4 \<longleftrightarrow> y mod 4 = 0"
  define p100 where "p100 \<longleftrightarrow> y mod 100 = 0"
  define p400 where "p400 \<longleftrightarrow> y mod 400 = 0"
  define a' where "a' = y div 4"
  define b' where "b' = y div 100"
  define c' where "c' = y div 400"
  have e4: "a' = a + (if p4 then 1 else 0)"
    unfolding a'_def a_def p4_def by (rule div_pred) simp
  have e100: "b' = b + (if p100 then 1 else 0)"
    unfolding b'_def b_def p100_def by (rule div_pred) simp
  have e400: "c' = c + (if p400 then 1 else 0)"
    unfolding c'_def c_def p400_def by (rule div_pred) simp
  have imp: "p100 \<Longrightarrow> p4" "p400 \<Longrightarrow> p100"
    unfolding p4_def p100_def p400_def by (rule mod_100_4, assumption) (rule mod_400_100, assumption)
  have leap: "is_leap y \<longleftrightarrow> p4 \<and> (\<not> p100 \<or> p400)"
    unfolding is_leap_def p4_def p100_def p400_def ..
  have lhs: "days_before_year (y + 1) = y * 365 + a' - b' + c'"
    unfolding days_before_year_def a'_def b'_def c'_def add_diff_cancel_right' ..
  have rhs: "days_before_year y = (y - 1) * 365 + a - b + c"
    unfolding days_before_year_def a_def b_def c_def ..
  have y365: "y * 365 = (y - 1) * 365 + 365"
    by (simp add: left_diff_distrib)
  consider (n4) "\<not> p4" "\<not> p100" "\<not> p400" | (n100) "p4" "\<not> p100" "\<not> p400"
    | (n400) "p4" "p100" "\<not> p400" | (y400) "p4" "p100" "p400"
    using imp by blast
  then show ?thesis
    unfolding lhs rhs leap e4 e100 e400 y365 by cases simp_all
qed

text \<open>Stepping the calendar by one day adds one to the ordinal and moves the weekday on.\<close>

lemma toordinal_next_day:
  assumes "valid_date d"
  shows "toordinal (next_day d) = toordinal d + 1"
proof -
  have v: "1 \<le> month d" "month d \<le> 12" "day d \<le> days_in_month (year d) (month d)"
    using assms by (simp_all add: valid_date_def)
  consider (same) "day d < days_in_month (year d) (month d)"
    | (month) "day d = days_in_month (year d) (month d)" "month d < 12"
    | (year) "day d = days_in_month (year d) (month d)" "month d = 12"
    using v by linarith
  then show ?thesis
  proof cases
    case same
    then show ?thesis
      by (simp add: next_day_def toordinal_def)
  next
    case month
    then show ?thesis
      using v(1) by (simp add: next_day_def toordinal_def days_before_month_step)
  next
    case year
    then have "day d = 31"
      by (simp add: days_in_month_def)
    with year have nd: "next_day d = \<lparr>year = year d + 1, month = 1, day = 1\<rparr>"
      by (simp add: next_day_def days_in_month_def)
    have "toordinal d = days_before_year (year d) + days_before_month (year d) 12 + 31"
      using year \<open>day d = 31\<close> by (simp add: toordinal_def)
    also have "\<dots> = days_before_year (year d + 1)"
      using days_before_month_december [of "year d"] days_before_year_step [of "year d"]
      by (simp add: add.assoc)
    finally show ?thesis
      unfolding nd by (simp add: toordinal_def days_before_month_first)
  qed
qed

lemma weekday_next_day:
  assumes "valid_date d"
  shows "weekday (next_day d) = (weekday d + 1) mod 7"
proof -
  have "weekday (next_day d) = (toordinal d + 6 + 1) mod 7"
    unfolding weekday_def toordinal_next_day [OF assms] by (simp add: add.commute add.left_commute)
  also have "\<dots> = ((toordinal d + 6) mod 7 + 1) mod 7"
    by (simp add: mod_add_left_eq)
  finally show ?thesis
    unfolding weekday_def .
qed

lemma valid_next_day:
  assumes "valid_date d" "year (next_day d) \<le> 9999"
  shows "valid_date (next_day d)"
proof -
  have dim: "28 \<le> days_in_month y m" for y m
    by (simp add: days_in_month_def)
  show ?thesis
    using assms dim [of "year d" "month d"] dim [of "year d" "month d + 1"] dim [of "year d + 1" 1]
    unfolding valid_date_def next_day_def
    by (simp split: if_splits)
qed



section \<open>Properties of the contact record\<close>

lemma edit_phone_loop_found:
  assumes "i \<le> k" "k < length ps" "fvalue (ps ! k) = old_phone"
    and "\<And>j. i \<le> j \<Longrightarrow> j < k \<Longrightarrow> fvalue (ps ! j) \<noteq> old_phone"
  shows "edit_phone_loop ps i old_phone new_phone =
           (case Phone_init new_phone of Inl e \<Rightarrow> Inl e | Inr p \<Rightarrow> Inr (ps[k := p]))"
  using assms
proof (induction ps i old_phone new_phone rule: edit_phone_loop.induct)
  case (1 ps i old_phone new_phone)
  show ?case
  proof (cases "i = k")
    case True
    show ?thesis
      unfolding True using "1.prems" by (subst edit_phone_loop.simps) simp
  next
    case False
    with "1.prems" have less: "i < k" and here: "fvalue (ps ! i) \<noteq> old_phone"
      by simp_all
    then have "edit_phone_loop ps i old_phone new_phone
        = edit_phone_loop ps (Suc i) old_phone new_phone"
      using "1.prems"(2) by (simp add: edit_phone_loop.simps [of ps i])
    also have "\<dots> = (case Phone_init new_phone of Inl e \<Rightarrow> Inl e | Inr p \<Rightarrow> Inr (ps[k := p]))"
      using "1.IH" "1.prems" less here by simp
    finally show ?thesis .
  qed
qed

lemma edit_phone_loop_missing:
  assumes "\<And>j. i \<le> j \<Longrightarrow> j < length ps \<Longrightarrow> fvalue (ps ! j) \<noteq> old_phone"
  shows "edit_phone_loop ps i old_phone new_phone = Inl (ValueError ''Phone not found'')"
  using assms
proof (induction ps i old_phone new_phone rule: edit_phone_loop.induct)
  case (1 ps i old_phone new_phone)
  show ?case
  proof (cases "i < length ps")
    case True
    then have "fvalue (ps ! i) \<noteq> old_phone"
      using "1.prems" by simp
    with True have "edit_phone_loop ps i old_phone new_phone
        = edit_phone_loop ps (Suc i) old_phone new_phone"
      by (simp add: edit_phone_loop.simps [of ps i])
    also have "\<dots> = Inl (ValueError ''Phone not found'')"
      using "1.IH" True \<open>fvalue (ps ! i) \<noteq> old_phone\<close> "1.prems" by simp
    finally show ?thesis .
  next
    case False
    then show ?thesis
      by (simp add: edit_phone_loop.simps [of ps i])
  qed
qed

text \<open>The position of the first phone with a given value.\<close>

lemma first_match:
  assumes "v \<in> fvalue ` set ps"
  shows "\<exists>k. k < length ps \<and> fvalue (ps ! k) = v \<and> (\<forall>j<k. fvalue (ps ! j) \<noteq> v)"
proof -
  define k where "k = (LEAST n. n < length ps \<and> fvalue (ps ! n) = v)"
  from assms obtain n where n: "n < length ps \<and> fvalue (ps ! n) = v"
    by (auto simp: in_set_conv_nth)
  then have "k < length ps \<and> fvalue (ps ! k) = v"
    unfolding k_def by (rule LeastI)
  moreover have "fvalue (ps ! j) \<noteq> v" if "j < k" for j
  proof
    assume "fvalue (ps ! j) = v"
    moreover have "j < length ps"
      using that \<open>k < length ps \<and> fvalue (ps ! k) = v\<close> by simp
    ultimately have "k \<le> j"
      unfolding k_def by (intro Least_le) simp
    with that show False by simp
  qed
  ultimately show ?thesis
    by blast
qed

text \<open>
  C6. When \<open>old_phone\<close> is the value of a stored phone and \<open>new_phone\<close> is not accepted
  by \<open>Phone\<close>, \<open>edit_phone\<close> raises the \<open>ValueError\<close> of the validation and the record is
  as it was: the phone sequence is unchanged, the old phone still at its position. The
  new phone is built before the assignment.
\<close>

theorem edit_phone_invalid_new_phone:
  assumes "old_phone \<in> fvalue ` set (phones r)"
    and "\<nexists>p. Phone_init new_phone = Inr p"
  shows "edit_phone r old_phone new_phone
           = (Some (ValueError ''Phone must contain exactly 10 digits''), r)"
proof -
  obtain k where k: "k < length (phones r)" "fvalue (phones r ! k) = old_phone"
      "\<And>j. j < k \<Longrightarrow> fvalue (phones r ! j) \<noteq> old_phone"
    using first_match [OF assms(1)] by blast
  have bad: "Phone_init new_phone = Inl (ValueError ''Phone must contain exactly 10 digits'')"
    using assms(2) unfolding Phone_init_def by (simp split: if_splits)
  have "edit_phone_loop (phones r) 0 old_phone new_phone
      = Inl (ValueError ''Phone must contain exactly 10 digits'')"
    using edit_phone_loop_found [of 0 k "phones r" old_phone new_phone] k bad by simp
  then show ?thesis
    by (simp add: edit_phone_def)
qed

text \<open>The theorem on a record with two phones, the second of which is to be replaced by \<open>12ab\<close>.\<close>

theorem edit_phone_invalid_new_phone_witness:
  "''0123456789'' \<in> fvalue ` set [Field ''5555555555'', Field ''0123456789'']
   \<and> (\<nexists>p. Phone_init ''12ab'' = Inr p)
   \<and> edit_phone \<lparr>name = Field ''Ann'', phones = [Field ''5555555555'', Field ''0123456789''],
                    birthday = None\<rparr> ''0123456789'' ''12ab''
       = (Some (ValueError ''Phone must contain exactly 10 digits''),
          \<lparr>name = Field ''Ann'', phones = [Field ''5555555555'', Field ''0123456789''],
             birthday = None\<rparr>)"
proof -
  have a: "''0123456789'' \<in> fvalue ` set (phones \<lparr>name = Field ''Ann'',
      phones = [Field ''5555555555'', Field ''0123456789''], birthday = None\<rparr>)"
    by simp
  have b: "\<nexists>p. Phone_init ''12ab'' = Inr p"
    by (simp add: Phone_init_def)
  show ?thesis
    using edit_phone_invalid_new_phone [OF a b] a b by simp
qed

text \<open>
  C7. When no stored phone has the value \<open>old_phone\<close>, \<open>edit_phone\<close> raises the
  \<open>ValueError\<close> "Phone not found" and the record is unchanged. When some phone has it
  and \<open>new_phone\<close> is accepted, the phone replaced is the first one in order with that
  value, and no other.
\<close>

theorem edit_phone_not_found_or_first:
  "(old_phone \<notin> fvalue ` set (phones r) \<longrightarrow>
      edit_phone r old_phone new_phone = (Some (ValueError ''Phone not found''), r))
   \<and> (\<forall>k p. k < length (phones r) \<and> fvalue (phones r ! k) = old_phone
          \<and> (\<forall>j<k. fvalue (phones r ! j) \<noteq> old_phone) \<and> Phone_init new_phone = Inr p \<longrightarrow>
        edit_phone r old_phone new_phone = (None, r\<lparr>phones := (phones r)[k := p]\<rparr>))"
proof (intro conjI impI allI)
  assume "old_phone \<notin> fvalue ` set (phones r)"
  then have "fvalue (phones r ! j) \<noteq> old_phone" if "j < length (phones r)" for j
    using that by (metis image_eqI nth_mem)
  then have "edit_phone_loop (phones r) 0 old_phone new_phone = Inl (ValueError ''Phone not found'')"
    by (intro edit_phone_loop_missing) simp
  then show "edit_phone r old_phone new_phone = (Some (ValueError ''Phone not found''), r)"
    by (simp add: edit_phone_def)
next
  fix k p
  assume a: "k < length (phones r) \<and> fvalue (phones r ! k) = old_phone
    \<and> (\<forall>j<k. fvalue (phones r ! j) \<noteq> old_phone) \<and> Phone_init new_phone = Inr p"
  then have "edit_phone_loop (phones r) 0 old_phone new_phone = Inr ((phones r)[k := p])"
    using edit_phone_loop_found [of 0 k "phones r" old_phone new_phone] by simp
  then show "edit_phone r old_phone new_phone = (None, r\<lparr>phones := (phones r)[k := p]\<rparr>)"
    by (simp add: edit_phone_def)
qed

text \<open>
  The theorem on two records: one without the phone asked for, one that holds it
  twice, at the second and third position.
\<close>

theorem edit_phone_not_found_or_first_witness:
  "''7777777777'' \<notin> fvalue ` set [Field ''0123456789'', Field ''5555555555'', Field ''0123456789'']
   \<and> edit_phone \<lparr>name = Field ''Ann'',
         phones = [Field ''0123456789'', Field ''5555555555'', Field ''0123456789''],
         birthday = None\<rparr> ''7777777777'' ''1111111111''
       = (Some (ValueError ''Phone not found''),
          \<lparr>name = Field ''Ann'',
             phones = [Field ''0123456789'', Field ''5555555555'', Field ''0123456789''],
             birthday = None\<rparr>)
   \<and> Phone_init ''1111111111'' = Inr (Field ''1111111111'')
   \<and> edit_phone \<lparr>name = Field ''Ann'',
         phones = [Field ''5555555555'', Field ''0123456789'', Field ''0123456789''],
         birthday = None\<rparr> ''0123456789'' ''1111111111''
       = (None,
          \<lparr>name = Field ''Ann'',
             phones = [Field ''5555555555'', Field ''1111111111'', Field ''0123456789''],
             birthday = None\<rparr>)"
proof -
  let ?r1 = "\<lparr>name = Field ''Ann'',
         phones = [Field ''0123456789'', Field ''5555555555'', Field ''0123456789''],
         birthday = None\<rparr>"
  let ?r2 = "\<lparr>name = Field ''Ann'',
         phones = [Field ''5555555555'', Field ''0123456789'', Field ''0123456789''],
         birthday = None\<rparr>"
  have p: "Phone_init ''1111111111'' = Inr (Field ''1111111111'')"
    by (simp add: Phone_init_def isdigit_def isdigit_char_def is_decimal_def ord_def)
  have first: "Suc 0 < length (phones ?r2) \<and> fvalue (phones ?r2 ! Suc 0) = ''0123456789''
      \<and> (\<forall>j<Suc 0. fvalue (phones ?r2 ! j) \<noteq> ''0123456789'')
      \<and> Phone_init ''1111111111'' = Inr (Field ''1111111111'')"
    using p by simp
  have "edit_phone ?r1 ''7777777777'' ''1111111111'' = (Some (ValueError ''Phone not found''), ?r1)"
    using edit_phone_not_found_or_first [of "''7777777777''" ?r1 "''1111111111''"] by simp
  moreover have "edit_phone ?r2 ''0123456789'' ''1111111111''
      = (None, ?r2\<lparr>phones := (phones ?r2)[Suc 0 := Field ''1111111111'']\<rparr>)"
    using edit_phone_not_found_or_first [of "''0123456789''" ?r2 "''1111111111''"] first
    by blast
  ultimately show ?thesis
    using p by simp
qed

section \<open>Properties of the commands and of persistence\<close>

lemma dict_set_absent: "map_of d k = None \<Longrightarrow> dict_set k v d = d @ [(k, v)]"
  by (induction d) (auto split: if_splits)

text \<open>A method that raises leaves its record as it was.\<close>

lemma raise_leaves_record:
  "add_phone r phone = (Some e, r') \<Longrightarrow> r' = r"
  "edit_phone r old_phone new_phone = (Some e, r') \<Longrightarrow> r' = r"
  "add_birthday r b = (Some e, r') \<Longrightarrow> r' = r"
  by (auto simp: add_phone_def edit_phone_def add_birthday_def split: sum.splits)

text \<open>Storing into an entry keeps the keys and their order, and adds none.\<close>

lemma store_record_keys: "map fst (store_record k r d) = map fst d"
  by (induction d) auto

lemma store_record_absent: "map_of d k = None \<Longrightarrow> store_record k r d = d"
  by (induction d) (auto split: if_splits)

lemma store_record_present:
  "map_of d k = Some v \<Longrightarrow> map_of (store_record k r d) k = Some r"
  by (induction d) (auto split: if_splits)

lemma map_of_last: "map_of d k = None \<Longrightarrow> map_of (d @ [(k, v)]) k = Some v"
  by (induction d) (auto split: if_splits)

text \<open>
  C10. The command \<open>add\<close> with a name that the book does not hold and a phone that \<open>Phone\<close>
  refuses raises the \<open>ValueError\<close> of the validation, and the book is changed all the
  same: it is the book that \<open>add_record\<close> made before the phone was validated, with the
  new record, without phone and birthday, at its end under that name. Nothing is
  written to the book after the exception, nothing is printed by the body and no file
  is written.
\<close>

theorem add_invalid_phone_keeps_new_record:
  assumes "find_record nm (book st) = None" and "nm \<noteq> []"
    and "\<nexists>p. Phone_init phone = Inr p"
  shows "\<exists>st'. execute dumps today ''add'' [nm, phone] st
             = (Inl (ValueError ''Phone must contain exactly 10 digits''), st')
           \<and> book st' = add_record \<lparr>name = Field nm, phones = [], birthday = None\<rparr> (book st)
           \<and> book st' = book st @ [(nm, \<lparr>name = Field nm, phones = [], birthday = None\<rparr>)]
           \<and> find_record nm (book st')
               = Some \<lparr>name = Field nm, phones = [], birthday = None\<rparr>
           \<and> files st' = files st \<and> printed st' = printed st"
proof -
  let ?new = "\<lparr>name = Field nm, phones = [], birthday = None\<rparr>"
  have absent: "map_of (book st) nm = None"
    using assms(1) by (simp add: find_record_def)
  have bad: "Phone_init phone = Inl (ValueError ''Phone must contain exactly 10 digits'')"
    using assms(3) unfolding Phone_init_def by (simp split: if_splits)
  have new: "Record_init nm = Inr ?new"
    using assms(2) by (simp add: Record_init_def Name_init_def)
  have phone: "add_phone ?new phone = (Some (ValueError ''Phone must contain exactly 10 digits''), ?new)"
    by (simp add: add_phone_def bad)
  have "cmd_add [nm, phone] st
      = (Inl (ValueError ''Phone must contain exactly 10 digits''),
         st\<lparr>book := book st @ [(nm, ?new)]\<rparr>)"
    using assms(1) absent
    by (simp add: cmd_add_def new phone add_record_def dict_set_absent)
  then have "execute dumps today ''add'' [nm, phone] st
      = (Inl (ValueError ''Phone must contain exactly 10 digits''),
         st\<lparr>book := book st @ [(nm, ?new)]\<rparr>)"
    by (simp add: execute_def)
  then show ?thesis
    using map_of_last [OF absent] absent
    by (simp add: find_record_def add_record_def dict_set_absent del: map_of_append)
qed

text \<open>The theorem on the empty book, with the line \<open>add Bob 123\<close>.\<close>

theorem add_invalid_phone_keeps_new_record_witness:
  "find_record ''Bob'' [] = None \<and> ''Bob'' \<noteq> [] \<and> (\<nexists>p. Phone_init ''123'' = Inr p)
   \<and> (\<exists>st'. execute (\<lambda>b. b) \<lparr>year = 2024, month = 6, day = 10\<rparr> ''add'' [''Bob'', ''123'']
               \<lparr>book = [], files = Map.empty, printed = []\<rparr>
             = (Inl (ValueError ''Phone must contain exactly 10 digits''), st')
           \<and> book st' = [(''Bob'', \<lparr>name = Field ''Bob'', phones = [], birthday = None\<rparr>)])"
proof -
  let ?st = "\<lparr>book = [], files = Map.empty :: AddressBook files, printed = []\<rparr>"
  have a: "find_record ''Bob'' (book ?st) = None"
    by (simp add: find_record_def)
  have b: "''Bob'' \<noteq> []"
    by simp
  have c: "\<nexists>p. Phone_init ''123'' = Inr p"
    by (simp add: Phone_init_def)
  show ?thesis
    using add_invalid_phone_keeps_new_record [OF a b c, of "\<lambda>b. b" "\<lparr>year = 2024, month = 6, day = 10\<rparr>"]
      a c by auto
qed

text \<open>
  Persistence. Loading after saving on one file name is the serialisation followed by
  its inverse, whatever the files held before, and the file that \<open>exit\<close> writes is the
  one that the next start reads. Whether the two compose to the identity is a property
  of \<open>pickle\<close>, which is not part of the program.
\<close>

lemma load_after_save:
  "load_data loads filename (save_data dumps b filename fs) = loads (dumps b)"
  by (simp add: load_data_def save_data_def)

lemma load_after_exit:
  "\<exists>st'. execute dumps today ''exit'' args st = (Inr Break, st')
     \<and> load_data loads default_filename (files st') = loads (dumps (book st))
     \<and> book st' = book st"
  by (simp add: load_data_def save_data_def execute_def show_message_def)

lemma load_missing_file: "fs filename = None \<Longrightarrow> load_data loads filename fs = Inr []"
  by (simp add: load_data_def)

section \<open>Properties of the command loop\<close>

text \<open>
  A line is parsed outside the \<open>try\<close> statement. When it holds no word the index
  \<open>parts[0]\<close> raises \<open>IndexError\<close> and the loop is left; when it holds one, the exception
  of the command, if any, is printed after \<open>Error: \<close> and the loop reads the next line.
\<close>

lemma blank_line_crashes:
  "split line = [] \<Longrightarrow>
     main_loop dumps today (line # rest) st = Crashed (IndexError ''list index out of range'') st"
  by (simp add: parse_input_def)

lemma command_error_is_reported:
  "parse_input line = Inr (command, args) \<Longrightarrow> execute dumps today command args st = (Inl e, st') \<Longrightarrow>
     main_loop dumps today (line # rest) st
       = main_loop dumps today rest (show_message (''Error: '' @ message e) st')"
  by simp

lemma parsed_line_never_crashes:
  assumes "parse_input line = Inr (command, args)"
  shows "(\<exists>st'. main_loop dumps today (line # rest) st = Exited st')
       \<or> (\<exists>st'. main_loop dumps today (line # rest) st = main_loop dumps today rest st')"
proof -
  obtain res st' where ex: "execute dumps today command args st = (res, st')"
    by (cases "execute dumps today command args st")
  show ?thesis
  proof (cases res)
    case (Inl e)
    with ex assms show ?thesis by auto
  next
    case (Inr f)
    with ex assms show ?thesis by (cases f) auto
  qed
qed

text \<open>
  C8 fails on the code: an empty line, and a line of blanks, end the process with an
  \<open>IndexError\<close> that nothing catches, whatever the book, the date and the lines that
  follow.
\<close>

theorem empty_line_ends_the_process:
  "main_loop dumps today ('''' # rest) st = Crashed (IndexError ''list index out of range'') st
   \<and> main_loop dumps today (''   '' # rest) st = Crashed (IndexError ''list index out of range'') st"
  by (simp add: parse_input_def split_def isspace_def ord_def)

section \<open>Properties of the upcoming birthdays\<close>

text \<open>
  The occurrence that the code computes, when it computes one, is the specification's,
  and it is a date of the calendar.
\<close>

lemma date_init_Inr:
  "date_init y m d = Inr r \<Longrightarrow> r = \<lparr>year = y, month = m, day = d\<rparr> \<and> valid_date r"
  unfolding date_init_def valid_date_def by (auto split: if_splits)

lemma occurrence_spec:
  assumes "occurrence born today = Inr occ"
  shows "occ = spec_occurrence born today" and "valid_date occ"
proof -
  obtain bday where b: "replace_year born (year today) = Inr bday"
    using assms unfolding occurrence_def by (cases "replace_year born (year today)") simp_all
  then have bday: "bday = \<lparr>year = year today, month = month born, day = day born\<rparr>" "valid_date bday"
    using date_init_Inr unfolding replace_year_def by blast+
  show "occ = spec_occurrence born today"
  proof (cases "date_less bday today")
    case True
    then have "replace_year bday (year today + 1) = Inr occ"
      using assms b by (simp add: occurrence_def)
    then have "occ = \<lparr>year = year today + 1, month = month bday, day = day bday\<rparr>"
      using date_init_Inr unfolding replace_year_def by blast
    with True bday show ?thesis
      by (simp add: spec_occurrence_def)
  next
    case False
    then have "occ = bday"
      using assms b by (simp add: occurrence_def)
    with False bday show ?thesis
      by (simp add: spec_occurrence_def)
  qed
  show "valid_date occ"
  proof (cases "date_less bday today")
    case True
    then have "replace_year bday (year today + 1) = Inr occ"
      using assms b by (simp add: occurrence_def)
    then show ?thesis
      using date_init_Inr unfolding replace_year_def by blast
  next
    case False
    then have "occ = bday"
      using assms b by (simp add: occurrence_def)
    with bday show ?thesis by simp
  qed
qed

lemma reportedI:
  "birthday r = Some b \<Longrightarrow> date_obj b = Inr born \<Longrightarrow>
   shift_weekend (spec_occurrence born today) = Inr shifted \<Longrightarrow>
   reported today r \<lparr>contact = fvalue (name r), congratulation_date = strftime shifted\<rparr>"
  by (simp add: reported_def)

lemma reportedD:
  "reported today r e \<Longrightarrow> birthday r = Some b \<Longrightarrow> date_obj b = Inr born \<Longrightarrow>
   \<exists>shifted. shift_weekend (spec_occurrence born today) = Inr shifted
     \<and> e = \<lparr>contact = fvalue (name r), congratulation_date = strftime shifted\<rparr>"
  by (simp add: reported_def split: sum.splits)

text \<open>
  The loop appends, in the order of the book, one entry for each record inside the
  window and nothing else.
\<close>

lemma upcoming_loop_result:
  "upcoming_loop days today rs acc = Inr res \<Longrightarrow>
     \<exists>new. res = acc @ new \<and> list_all2 (reported today) (filter (in_window days today) rs) new"
proof (induction rs arbitrary: acc)
  case Nil
  then show ?case by simp
next
  case (Cons r rs)
  show ?case
  proof (cases "birthday r")
    case None
    then have "upcoming_loop days today rs acc = Inr res" and "\<not> in_window days today r"
      using Cons.prems by (simp_all add: in_window_def)
    then show ?thesis
      using Cons.IH by simp
  next
    case (Some b)
    then obtain born where born: "date_obj b = Inr born"
      using Cons.prems by (cases "date_obj b") simp_all
    then obtain occ where occ: "occurrence born today = Inr occ"
      using Cons.prems Some by (cases "occurrence born today") simp_all
    then have spec: "occ = spec_occurrence born today"
      by (rule occurrence_spec)
    show ?thesis
    proof (cases "0 \<le> days_between occ today \<and> days_between occ today \<le> days")
      case True
      then have inside: "in_window days today r"
        using Some born spec by (simp add: in_window_def)
      obtain shifted where sh: "shift_weekend occ = Inr shifted"
        using Cons.prems Some born occ True by (cases "shift_weekend occ") simp_all
      let ?e = "\<lparr>contact = fvalue (name r), congratulation_date = strftime shifted\<rparr>"
      have "upcoming_loop days today rs (acc @ [?e]) = Inr res"
        using Cons.prems Some born occ True sh by simp
      then obtain new where new: "res = (acc @ [?e]) @ new"
          "list_all2 (reported today) (filter (in_window days today) rs) new"
        using Cons.IH by blast
      have "reported today r ?e"
        using reportedI [OF Some born] sh spec by simp
      with new inside show ?thesis
        by simp
    next
      case False
      then have outside: "\<not> in_window days today r"
        using Some born spec by (simp add: in_window_def)
      have "upcoming_loop days today rs acc = Inr res"
        using Cons.prems Some born occ False by simp
      with outside show ?thesis
        using Cons.IH by simp
    qed
  qed
qed

lemma reported_contact: "reported today r e \<Longrightarrow> contact e = fvalue (name r)"
  by (auto simp: reported_def split: option.splits sum.splits)

lemma list_all2_contacts:
  "list_all2 (reported today) rs es \<Longrightarrow> map contact es = map (\<lambda>r. fvalue (name r)) rs"
  by (induction rule: list_all2_induct) (simp_all add: reported_contact)

lemma upcoming_loop_parses:
  "upcoming_loop days today rs acc = Inr res \<Longrightarrow> r \<in> set rs \<Longrightarrow> birthday r = Some b \<Longrightarrow>
     \<exists>born occ. date_obj b = Inr born \<and> occurrence born today = Inr occ"
proof (induction rs arbitrary: acc)
  case Nil
  then show ?case by simp
next
  case (Cons x rs)
  have rest: "\<exists>acc'. upcoming_loop days today rs acc' = Inr res"
    using Cons.prems(1)
    by (auto split: option.splits sum.splits if_splits)
  show ?case
  proof (cases "r = x")
    case True
    then show ?thesis
      using Cons.prems(1,3) by (auto split: sum.splits)
  next
    case False
    then have "r \<in> set rs"
      using Cons.prems(2) by simp
    then show ?thesis
      using rest Cons.IH Cons.prems(3) by blast
  qed
qed

text \<open>The weekend shift: one or two steps of the calendar, ending on a Monday.\<close>

lemma year_next_day: "year d \<le> year (next_day d)"
  by (simp add: next_day_def)

lemma add_days_one:
  assumes "valid_date d" "add_days d 1 = Inr s"
  shows "s = next_day d" "valid_date s" "days_between s d = 1"
    "weekday s = (weekday d + 1) mod 7"
proof -
  show s: "s = next_day d" and y: "valid_date s"
    using assms valid_next_day [of d]
    by (auto simp: add_days_def Let_def split: if_splits)
  show "days_between s d = 1"
    unfolding s days_between_def toordinal_next_day [OF assms(1)] by simp
  show "weekday s = (weekday d + 1) mod 7"
    unfolding s by (rule weekday_next_day [OF assms(1)])
qed

lemma add_days_two:
  assumes "valid_date d" "add_days d 2 = Inr s"
  shows "s = next_day (next_day d)" "valid_date s" "days_between s d = 2"
    "weekday s = ((weekday d + 1) mod 7 + 1) mod 7"
proof -
  have two: "(next_day ^^ 2) d = next_day (next_day d)"
    by (simp add: numeral_2_eq_2)
  have s: "s = next_day (next_day d)" and "year s \<le> 9999"
    using assms(2) unfolding add_days_def Let_def two by (auto split: if_splits)
  show "s = next_day (next_day d)"
    by (rule s)
  have "year (next_day d) \<le> 9999"
    using year_next_day [of "next_day d"] \<open>year s \<le> 9999\<close> s by simp
  then have v1: "valid_date (next_day d)"
    using valid_next_day assms(1) by blast
  then show "valid_date s"
    unfolding s using valid_next_day \<open>year s \<le> 9999\<close> s by blast
  show "days_between s d = 2"
    unfolding s days_between_def toordinal_next_day [OF v1] toordinal_next_day [OF assms(1)]
    by simp
  show "weekday s = ((weekday d + 1) mod 7 + 1) mod 7"
    unfolding s weekday_next_day [OF v1] weekday_next_day [OF assms(1)] ..
qed

lemma shift_weekend_result:
  assumes "valid_date occ" "shift_weekend occ = Inr shifted"
  shows "valid_date shifted"
    and "weekday occ = 5 \<Longrightarrow> days_between shifted occ = 2 \<and> weekday shifted = 0"
    and "weekday occ = 6 \<Longrightarrow> days_between shifted occ = 1 \<and> weekday shifted = 0"
    and "weekday occ \<noteq> 5 \<Longrightarrow> weekday occ \<noteq> 6 \<Longrightarrow> shifted = occ"
proof -
  show "valid_date shifted"
    using assms add_days_one(2) [OF assms(1)] add_days_two(2) [OF assms(1)]
    unfolding shift_weekend_def by (auto split: if_splits)
  show "days_between shifted occ = 2 \<and> weekday shifted = 0" if "weekday occ = 5"
  proof -
    have "add_days occ 2 = Inr shifted"
      using assms(2) that by (simp add: shift_weekend_def)
    then show ?thesis
      using add_days_two(3,4) [OF assms(1)] that by simp
  qed
  show "days_between shifted occ = 1 \<and> weekday shifted = 0" if "weekday occ = 6"
  proof -
    have "add_days occ 1 = Inr shifted"
      using assms(2) that by (simp add: shift_weekend_def)
    then show ?thesis
      using add_days_one(3,4) [OF assms(1)] that by simp
  qed
  show "shifted = occ" if "weekday occ \<noteq> 5" "weekday occ \<noteq> 6"
    using assms(2) that by (simp add: shift_weekend_def)
qed

text \<open>
  C3 fails on the code: \<open>29.02.2000\<close> is a birthday that \<open>Birthday\<close> accepts, and on
  10 June 2023 \<open>replace(year=2023)\<close> raises \<open>ValueError\<close>, which \<open>get_upcoming_birthdays\<close>
  lets through.
\<close>

theorem leap_day_birthday_raises:
  "Birthday_init ''29.02.2000'' = Inr (Field ''29.02.2000'')
   \<and> valid_date \<lparr>year = 2023, month = 6, day = 10\<rparr>
   \<and> get_upcoming_birthdays
        [(''Ann'', \<lparr>name = Field ''Ann'', phones = [], birthday = Some (Field ''29.02.2000'')\<rparr>)]
        7 \<lparr>year = 2023, month = 6, day = 10\<rparr>
      = Inl (ValueError ''day is out of range for month'')"
  by code_simp

text \<open>What a result of \<open>get_upcoming_birthdays\<close> holds, when there is one.\<close>

lemma upcoming_window_of_result:
  assumes "get_upcoming_birthdays data days today = Inr res"
  shows "map contact res
           = map (\<lambda>r. fvalue (name r)) (filter (in_window days today) (map snd data))
         \<and> (distinct (map (\<lambda>r. fvalue (name r)) (map snd data)) \<longrightarrow>
              (\<forall>r\<in>set (map snd data).
                 fvalue (name r) \<in> contact ` set res \<longleftrightarrow> in_window days today r))
         \<and> (\<forall>r\<in>set (map snd data). birthday r = None \<longrightarrow> \<not> in_window days today r)
         \<and> (\<forall>r\<in>set (map snd data). \<forall>b. birthday r = Some b \<longrightarrow>
              (\<exists>born. date_obj b = Inr born
                 \<and> occurrence born today = Inr (spec_occurrence born today)
                 \<and> (in_window days today r \<longleftrightarrow>
                      0 \<le> days_between (spec_occurrence born today) today
                      \<and> days_between (spec_occurrence born today) today \<le> days)))"
proof (intro conjI)
  let ?rs = "map snd data"
  let ?nm = "\<lambda>r. fvalue (name r)"
  have loop: "upcoming_loop days today ?rs [] = Inr res"
    using assms by (simp add: get_upcoming_birthdays_def)
  then have all2: "list_all2 (reported today) (filter (in_window days today) ?rs) res"
    using upcoming_loop_result by fastforce
  then show contacts: "map contact res = map ?nm (filter (in_window days today) ?rs)"
    by (rule list_all2_contacts)
  show "distinct (map ?nm ?rs) \<longrightarrow>
      (\<forall>r\<in>set ?rs. ?nm r \<in> contact ` set res \<longleftrightarrow> in_window days today r)"
  proof (intro impI ballI)
    fix r
    assume d: "distinct (map ?nm ?rs)" and r: "r \<in> set ?rs"
    have inj: "inj_on ?nm (set ?rs)"
      using d by (simp only: distinct_map)
    have "contact ` set res = ?nm ` set (filter (in_window days today) ?rs)"
      using contacts by (metis set_map)
    also have "?nm r \<in> \<dots> \<longleftrightarrow> r \<in> set (filter (in_window days today) ?rs)"
      using inj r by (auto dest: inj_onD)
    finally show "?nm r \<in> contact ` set res \<longleftrightarrow> in_window days today r"
      using r by simp
  qed
  show "\<forall>r\<in>set ?rs. birthday r = None \<longrightarrow> \<not> in_window days today r"
    by (simp add: in_window_def)
  show "\<forall>r\<in>set ?rs. \<forall>b. birthday r = Some b \<longrightarrow>
      (\<exists>born. date_obj b = Inr born
         \<and> occurrence born today = Inr (spec_occurrence born today)
         \<and> (in_window days today r \<longleftrightarrow>
              0 \<le> days_between (spec_occurrence born today) today
              \<and> days_between (spec_occurrence born today) today \<le> days))"
  proof (intro ballI allI impI)
    fix r b
    assume "r \<in> set ?rs" and b: "birthday r = Some b"
    then obtain born occ where born: "date_obj b = Inr born" and occ: "occurrence born today = Inr occ"
      using upcoming_loop_parses [OF loop] by blast
    then have "occurrence born today = Inr (spec_occurrence born today)"
      using occurrence_spec(1) by blast
    then show "\<exists>born. date_obj b = Inr born
         \<and> occurrence born today = Inr (spec_occurrence born today)
         \<and> (in_window days today r \<longleftrightarrow>
              0 \<le> days_between (spec_occurrence born today) today
              \<and> days_between (spec_occurrence born today) today \<le> days)"
      using b born by (auto simp: in_window_def)
  qed
qed

lemma list_all2_in_set:
  "list_all2 P xs ys \<Longrightarrow> x \<in> set xs \<Longrightarrow> \<exists>y\<in>set ys. P x y"
  by (induction rule: list_all2_induct) auto

text \<open>
  C2. Whenever \<open>get_upcoming_birthdays\<close> returns, a record whose occurrence lies inside
  the window has an entry with its name and a date that is a date of the calendar: two
  days after the occurrence when that is a Saturday, one day after when it is a Sunday,
  a Monday in both cases, and the occurrence itself on any other day. Nothing compares
  the shifted date with the window. On 10 June 2024 a birthday on Saturday 15 June 2024
  is reported as \<open>17.06.2024\<close>.
\<close>

theorem weekend_shift:
  assumes "get_upcoming_birthdays data days today = Inr res"
    and "r \<in> set (map snd data)" and "birthday r = Some b" and "date_obj b = Inr born"
    and "0 \<le> days_between (spec_occurrence born today) today"
    and "days_between (spec_occurrence born today) today \<le> days"
  shows "(\<exists>shifted.
            \<lparr>contact = fvalue (name r), congratulation_date = strftime shifted\<rparr> \<in> set res
            \<and> valid_date shifted
            \<and> (weekday (spec_occurrence born today) = 5 \<longrightarrow>
                 days_between shifted (spec_occurrence born today) = 2 \<and> weekday shifted = 0)
            \<and> (weekday (spec_occurrence born today) = 6 \<longrightarrow>
                 days_between shifted (spec_occurrence born today) = 1 \<and> weekday shifted = 0)
            \<and> (weekday (spec_occurrence born today) \<noteq> 5
                 \<and> weekday (spec_occurrence born today) \<noteq> 6 \<longrightarrow>
                 shifted = spec_occurrence born today))
         \<and> weekday \<lparr>year = 2024, month = 6, day = 15\<rparr> = 5
         \<and> get_upcoming_birthdays
              [(''Cy'', \<lparr>name = Field ''Cy'', phones = [],
                         birthday = Some (Field ''15.06.1990'')\<rparr>)]
              7 \<lparr>year = 2024, month = 6, day = 10\<rparr>
            = Inr [\<lparr>contact = ''Cy'', congratulation_date = ''17.06.2024''\<rparr>]"
proof -

  let ?occ = "spec_occurrence born today"
  have loop: "upcoming_loop days today (map snd data) [] = Inr res"
    using assms(1) by (simp add: get_upcoming_birthdays_def)
  have inside: "in_window days today r"
    using assms(3-6) by (simp add: in_window_def)
  have all2: "list_all2 (reported today) (filter (in_window days today) (map snd data)) res"
    using upcoming_loop_result [OF loop] by simp
  have "r \<in> set (filter (in_window days today) (map snd data))"
    using assms(2) inside by simp
  then have "\<exists>e\<in>set res. reported today r e"
    by (rule list_all2_in_set [OF all2])
  then obtain e where e: "e \<in> set res" "reported today r e" ..
  obtain shifted where sh: "shift_weekend ?occ = Inr shifted"
      "e = \<lparr>contact = fvalue (name r), congratulation_date = strftime shifted\<rparr>"
    using reportedD [OF e(2) assms(3,4)] by blast
  obtain born' occ where parsed: "date_obj b = Inr born'" "occurrence born' today = Inr occ"
    using upcoming_loop_parses [OF loop assms(2,3)] by blast
  have "born' = born"
    using parsed(1) assms(4) by simp
  then have valid: "valid_date ?occ"
    using occurrence_spec [OF parsed(2)] by simp
  note shift = shift_weekend_result [OF valid sh(1)]
  have member: "\<lparr>contact = fvalue (name r), congratulation_date = strftime shifted\<rparr> \<in> set res"
    using e(1) sh(2) by simp
  have general: "\<exists>shifted.
      \<lparr>contact = fvalue (name r), congratulation_date = strftime shifted\<rparr> \<in> set res
      \<and> valid_date shifted
      \<and> (weekday ?occ = 5 \<longrightarrow> days_between shifted ?occ = 2 \<and> weekday shifted = 0)
      \<and> (weekday ?occ = 6 \<longrightarrow> days_between shifted ?occ = 1 \<and> weekday shifted = 0)
      \<and> (weekday ?occ \<noteq> 5 \<and> weekday ?occ \<noteq> 6 \<longrightarrow> shifted = ?occ)"
  proof (intro exI [of _ shifted] conjI impI)
    show "\<lparr>contact = fvalue (name r), congratulation_date = strftime shifted\<rparr> \<in> set res"
      by (rule member)
    show "valid_date shifted"
      by (rule shift(1))
    show "days_between shifted ?occ = 2" "weekday shifted = 0" if "weekday ?occ = 5"
      using shift(2) [OF that] by (rule conjunct1, rule conjunct2)
    show "days_between shifted ?occ = 1" "weekday shifted = 0" if "weekday ?occ = 6"
      using shift(3) [OF that] by (rule conjunct1, rule conjunct2)
    show "shifted = ?occ" if "weekday ?occ \<noteq> 5 \<and> weekday ?occ \<noteq> 6"
      using shift(4) that by (elim conjE) 
  qed
  have saturday: "weekday \<lparr>year = 2024, month = 6, day = 15\<rparr> = 5"
    by code_simp
  have example: "get_upcoming_birthdays
      [(''Cy'', \<lparr>name = Field ''Cy'', phones = [], birthday = Some (Field ''15.06.1990'')\<rparr>)]
      7 \<lparr>year = 2024, month = 6, day = 10\<rparr>
    = Inr [\<lparr>contact = ''Cy'', congratulation_date = ''17.06.2024''\<rparr>]"
    by code_simp
  from general saturday example show ?thesis
    by (intro conjI)
qed

text \<open>
  The theorem on 8 June 2024 with the window of 7 days: the occurrence, Saturday
  15 June, is 7 days away, and the date reported, Monday 17 June, is 9 days away,
  outside the window.
\<close>

theorem weekend_shift_witness:
  "get_upcoming_birthdays
     [(''Cy'', \<lparr>name = Field ''Cy'', phones = [], birthday = Some (Field ''15.06.1990'')\<rparr>)]
     7 \<lparr>year = 2024, month = 6, day = 8\<rparr>
   = Inr [\<lparr>contact = ''Cy'', congratulation_date = ''17.06.2024''\<rparr>]
   \<and> date_obj (Field ''15.06.1990'') = Inr \<lparr>year = 1990, month = 6, day = 15\<rparr>
   \<and> spec_occurrence \<lparr>year = 1990, month = 6, day = 15\<rparr> \<lparr>year = 2024, month = 6, day = 8\<rparr>
       = \<lparr>year = 2024, month = 6, day = 15\<rparr>
   \<and> days_between \<lparr>year = 2024, month = 6, day = 15\<rparr> \<lparr>year = 2024, month = 6, day = 8\<rparr> = 7
   \<and> weekday \<lparr>year = 2024, month = 6, day = 15\<rparr> = 5
   \<and> (\<exists>shifted. strftime shifted = ''17.06.2024''
         \<and> days_between shifted \<lparr>year = 2024, month = 6, day = 15\<rparr> = 2
         \<and> weekday shifted = 0)
   \<and> days_between \<lparr>year = 2024, month = 6, day = 17\<rparr> \<lparr>year = 2024, month = 6, day = 8\<rparr> = 9"
proof -
  let ?cy = "\<lparr>name = Field ''Cy'', phones = [], birthday = Some (Field ''15.06.1990'')\<rparr>"
  let ?born = "\<lparr>year = 1990, month = 6, day = 15\<rparr>"
  let ?today = "\<lparr>year = 2024, month = 6, day = 8\<rparr>"
  let ?occ = "\<lparr>year = 2024, month = 6, day = 15\<rparr>"
  let ?res = "[\<lparr>contact = ''Cy'', congratulation_date = ''17.06.2024''\<rparr>]"
  have run: "get_upcoming_birthdays [(''Cy'', ?cy)] 7 ?today = Inr ?res"
    by code_simp
  have member: "?cy \<in> set (map snd [(''Cy'', ?cy)])" and bday: "birthday ?cy = Some (Field ''15.06.1990'')"
    by simp_all
  have born: "date_obj (Field ''15.06.1990'') = Inr ?born"
    by code_simp
  have occ: "spec_occurrence ?born ?today = ?occ"
    by code_simp
  have d7: "days_between ?occ ?today = 7"
    by code_simp
  have sat: "weekday ?occ = 5"
    by code_simp
  have lo: "0 \<le> days_between (spec_occurrence ?born ?today) ?today"
    and hi: "days_between (spec_occurrence ?born ?today) ?today \<le> 7"
    unfolding occ d7 by simp_all
  obtain shifted where
      sh: "\<lparr>contact = fvalue (name ?cy), congratulation_date = strftime shifted\<rparr> \<in> set ?res"
      and two: "weekday ?occ = 5 \<longrightarrow> days_between shifted ?occ = 2 \<and> weekday shifted = 0"
    using weekend_shift [OF run member bday born lo hi, THEN conjunct1] unfolding occ
    by (elim exE conjE)
  have "strftime shifted = ''17.06.2024''"
    using sh by simp
  moreover have "days_between shifted ?occ = 2" "weekday shifted = 0"
    using two sat by simp_all
  ultimately have ex: "\<exists>shifted. strftime shifted = ''17.06.2024''
      \<and> days_between shifted ?occ = 2 \<and> weekday shifted = 0"
    by (intro exI [of _ shifted] conjI)
  have nine: "days_between \<lparr>year = 2024, month = 6, day = 17\<rparr> ?today = 9"
    by code_simp
  from run born occ d7 sat ex nine show ?thesis
    by (intro conjI)
qed

section \<open>Properties of the birthday parser\<close>

lemma ord_chars:
  "c = CHR ''0'' \<longleftrightarrow> ord c = 48" "c = CHR ''1'' \<longleftrightarrow> ord c = 49"
  "c = CHR ''2'' \<longleftrightarrow> ord c = 50" "c = CHR ''3'' \<longleftrightarrow> ord c = 51"
  "c = CHR ''.'' \<longleftrightarrow> ord c = 46" "c = CHR '' '' \<longleftrightarrow> ord c = 32"
proof -
  have "ord CHR ''0'' = 48" "ord CHR ''1'' = 49" "ord CHR ''2'' = 50" "ord CHR ''3'' = 51"
    "ord CHR ''.'' = 46" "ord CHR '' '' = 32"
    by (simp_all add: ord_def)
  then show "c = CHR ''0'' \<longleftrightarrow> ord c = 48" "c = CHR ''1'' \<longleftrightarrow> ord c = 49"
    "c = CHR ''2'' \<longleftrightarrow> ord c = 50" "c = CHR ''3'' \<longleftrightarrow> ord c = 51"
    "c = CHR ''.'' \<longleftrightarrow> ord c = 46" "c = CHR '' '' \<longleftrightarrow> ord c = 32"
    using ord_inj [of c] by metis+
qed

lemma decimal_not_dot: "is_decimal c \<Longrightarrow> not_dot c"
  by (simp add: not_dot_def ord_chars is_decimal_def)

lemma match_d_two:
  assumes "is_decimal a" "is_decimal b"
  shows "match_d [a, b] =
    (if 1 \<le> 10 * digit_val a + digit_val b \<and> 10 * digit_val a + digit_val b \<le> 31
     then Some (10 * digit_val a + digit_val b) else None)"
proof -
  define x where "x = ord a"
  define y where "y = ord b"
  have "48 \<le> x" "x \<le> 57" "48 \<le> y" "y \<le> 57"
    using assms by (simp_all add: is_decimal_def x_def y_def)
  then show ?thesis
    unfolding match_d.simps nonzero_digit_def ord_chars is_decimal_def digit_val_def
      x_def [symmetric] y_def [symmetric]
    by auto
qed

lemma match_m_two:
  assumes "is_decimal a" "is_decimal b"
  shows "match_m [a, b] =
    (if 1 \<le> 10 * digit_val a + digit_val b \<and> 10 * digit_val a + digit_val b \<le> 12
     then Some (10 * digit_val a + digit_val b) else None)"
proof -
  define x where "x = ord a"
  define y where "y = ord b"
  have "48 \<le> x" "x \<le> 57" "48 \<le> y" "y \<le> 57"
    using assms by (simp_all add: is_decimal_def x_def y_def)
  then show ?thesis
    unfolding match_m.simps nonzero_digit_def ord_chars is_decimal_def digit_val_def
      x_def [symmetric] y_def [symmetric]
    by auto
qed

lemma digit_val_range: "is_decimal c \<Longrightarrow> 0 \<le> digit_val c \<and> digit_val c \<le> 9"
  by (auto simp: is_decimal_def digit_val_def)

lemma days_in_month_le: "days_in_month y m \<le> 31"
  by (simp add: days_in_month_def)

text \<open>
  On a string of the exact shape, two digits, a dot, two digits, a dot and four digits,
  the parser succeeds exactly when the three numbers are a date of the calendar.
\<close>

lemma strptime_padded:
  assumes "is_decimal d1" "is_decimal d2" "is_decimal m1" "is_decimal m2"
    "is_decimal y1" "is_decimal y2" "is_decimal y3" "is_decimal y4"
  shows "strptime [d1, d2, CHR ''.'', m1, m2, CHR ''.'', y1, y2, y3, y4] =
    (case match_d [d1, d2] of
       None \<Rightarrow> Inl (ValueError ''time data does not match format'')
     | Some dv \<Rightarrow>
        (case match_m [m1, m2] of
           None \<Rightarrow> Inl (ValueError ''time data does not match format'')
         | Some mv \<Rightarrow>
             date_init (1000 * digit_val y1 + 100 * digit_val y2 + 10 * digit_val y3 + digit_val y4)
               mv dv))"
proof -
  have nd: "not_dot d1" "not_dot d2" "not_dot m1" "not_dot m2" "\<not> not_dot CHR ''.''"
    using assms by (simp_all add: decimal_not_dot) (simp add: not_dot_def)
  have year: "match_Y [y1, y2, y3, y4]
      = Some (1000 * digit_val y1 + 100 * digit_val y2 + 10 * digit_val y3 + digit_val y4)"
    using assms(5-8) by simp
  show ?thesis
    unfolding strptime_def using nd year
    by (simp del: match_d.simps match_m.simps match_Y.simps split: option.splits)
qed

lemma padded_date:
  assumes "is_decimal d1" "is_decimal d2" "is_decimal m1" "is_decimal m2"
    "is_decimal y1" "is_decimal y2" "is_decimal y3" "is_decimal y4"
  shows "(\<exists>d. strptime [d1, d2, CHR ''.'', m1, m2, CHR ''.'', y1, y2, y3, y4] = Inr d) \<longleftrightarrow>
    valid_date \<lparr>year = 1000 * digit_val y1 + 100 * digit_val y2 + 10 * digit_val y3 + digit_val y4,
                month = 10 * digit_val m1 + digit_val m2,
                day = 10 * digit_val d1 + digit_val d2\<rparr>"
proof -
  define y where "y = 1000 * digit_val y1 + 100 * digit_val y2 + 10 * digit_val y3 + digit_val y4"
  define m where "m = 10 * digit_val m1 + digit_val m2"
  define d where "d = 10 * digit_val d1 + digit_val d2"
  have "y \<le> 9999"
    using digit_val_range [OF assms(5)] digit_val_range [OF assms(6)]
      digit_val_range [OF assms(7)] digit_val_range [OF assms(8)]
    unfolding y_def by linarith
  moreover note days_in_month_le [of y m]
  ultimately show ?thesis
    unfolding strptime_padded [OF assms] match_d_two [OF assms(1,2)] match_m_two [OF assms(3,4)]
      y_def [symmetric] m_def [symmetric] d_def [symmetric] date_init_def valid_date_def
    by auto
qed

text \<open>What the parser accepts has three fields, separated by dots.\<close>

lemma match_d_length: "match_d ds = Some v \<Longrightarrow> length ds = 1 \<or> length ds = 2"
  by (cases ds rule: match_d.cases) simp_all

lemma match_m_length: "match_m ms = Some v \<Longrightarrow> length ms = 1 \<or> length ms = 2"
  by (cases ms rule: match_m.cases) simp_all

lemma match_Y_digits: "match_Y ys = Some v \<Longrightarrow> length ys = 4 \<and> list_all is_decimal ys"
  by (cases ys rule: match_Y.cases) (simp_all split: if_splits)

lemma dropWhile_dot: "dropWhile not_dot s = c # r \<Longrightarrow> s = takeWhile not_dot s @ ''.'' @ r"
proof -
  assume a: "dropWhile not_dot s = c # r"
  then have "\<not> not_dot c"
    using hd_dropWhile [of not_dot s] by simp
  then have "c = CHR ''.''"
    by (simp add: not_dot_def)
  with a show ?thesis
    using takeWhile_dropWhile_id [of not_dot s] by simp
qed

lemma strptime_shape:
  assumes "strptime s = Inr d"
  shows "valid_date d"
    and "\<exists>ds ms ys. s = ds @ ''.'' @ ms @ ''.'' @ ys \<and> (length ds = 1 \<or> length ds = 2)
           \<and> (length ms = 1 \<or> length ms = 2) \<and> length ys = 4 \<and> list_all is_decimal ys"
proof -
  obtain c1 r1 where r1: "dropWhile not_dot s = c1 # r1"
    using assms by (cases "dropWhile not_dot s") (simp_all add: strptime_def)
  obtain c2 r2 where r2: "dropWhile not_dot r1 = c2 # r2"
    using assms by (cases "dropWhile not_dot r1") (simp_all add: strptime_def r1)
  obtain dv where dv: "match_d (takeWhile not_dot s) = Some dv"
    using assms by (cases "match_d (takeWhile not_dot s)") (simp_all add: strptime_def r1 r2)
  obtain mv where mv: "match_m (takeWhile not_dot r1) = Some mv"
    using assms by (cases "match_m (takeWhile not_dot r1)") (simp_all add: strptime_def r1 r2 dv)
  obtain yv where yv: "match_Y (take 4 r2) = Some yv"
    using assms by (cases "match_Y (take 4 r2)") (simp_all add: strptime_def r1 r2 dv mv)
  have rest: "\<not> 4 < length r2" and date: "date_init yv mv dv = Inr d"
    using assms by (simp_all add: strptime_def r1 r2 dv mv yv split: if_splits)
  show "valid_date d"
    using date_init_Inr [OF date] by (rule conjunct2)
  have "length (take 4 r2) = 4" and digits: "list_all is_decimal (take 4 r2)"
    using match_Y_digits [OF yv] by simp_all
  then have "take 4 r2 = r2"
    using rest by simp
  then have ys: "length r2 = 4" "list_all is_decimal r2"
    using \<open>length (take 4 r2) = 4\<close> digits by simp_all
  have "s = takeWhile not_dot s @ ''.'' @ takeWhile not_dot r1 @ ''.'' @ r2"
    using dropWhile_dot [OF r1] dropWhile_dot [OF r2] by simp
  then show "\<exists>ds ms ys. s = ds @ ''.'' @ ms @ ''.'' @ ys \<and> (length ds = 1 \<or> length ds = 2)
           \<and> (length ms = 1 \<or> length ms = 2) \<and> length ys = 4 \<and> list_all is_decimal ys"
    using match_d_length [OF dv] match_m_length [OF mv] ys by blast
qed

lemma strptime_error: "strptime s = Inl e \<Longrightarrow> \<exists>m. e = ValueError m"
  unfolding strptime_def date_init_def
  by (auto split: list.splits option.splits if_splits)

lemma Birthday_init_Inr: "Birthday_init s = Inr b \<longleftrightarrow> (\<exists>d. strptime s = Inr d) \<and> b = Field s"
proof (cases "strptime s")
  case (Inl e)
  then obtain m where "e = ValueError m"
    using strptime_error by blast
  with Inl show ?thesis
    by (simp add: Birthday_init_def)
next
  case (Inr d)
  then show ?thesis
    by (auto simp: Birthday_init_def)
qed

lemma Birthday_init_Inl:
  "Birthday_init s = Inl e \<Longrightarrow> e = ValueError ''Invalid date format. Use DD.MM.YYYY''"
proof (cases "strptime s")
  case (Inl e')
  assume a: "Birthday_init s = Inl e"
  obtain m where "e' = ValueError m"
    using strptime_error [OF Inl] by blast
  with Inl a show ?thesis
    by (simp add: Birthday_init_def)
next
  case (Inr d)
  assume "Birthday_init s = Inl e"
  with Inr show ?thesis
    by (simp add: Birthday_init_def)
qed

text \<open>
  The parser's three groups, in the words of the calendar: a field is matched exactly
  when it has the shape of its kind and its number is in range.
\<close>

lemma match_d_number:
  "match_d ds = (if day_field ds \<and> 1 \<le> number ds \<and> number ds \<le> 31 then Some (number ds) else None)"
proof (cases ds rule: match_d.cases)
  case (1 a)
  show ?thesis
    unfolding 1 match_d.simps day_field.simps number_def nonzero_digit_def ord_chars
      is_decimal_def digit_val_def
    by auto
next
  case (2 a b)
  show ?thesis
    unfolding 2 match_d.simps day_field.simps number_def nonzero_digit_def ord_chars
      is_decimal_def digit_val_def
    by auto
qed simp_all

lemma match_m_number:
  "match_m ms = (if month_field ms \<and> 1 \<le> number ms \<and> number ms \<le> 12 then Some (number ms) else None)"
proof (cases ms rule: match_m.cases)
  case (1 a)
  show ?thesis
    unfolding 1 match_m.simps month_field.simps number_def nonzero_digit_def ord_chars
      is_decimal_def digit_val_def
    by auto
next
  case (2 a b)
  show ?thesis
    unfolding 2 match_m.simps month_field.simps number_def nonzero_digit_def ord_chars
      is_decimal_def digit_val_def
    by auto
qed simp_all

lemma match_Y_number:
  "match_Y ys = (if year_field ys then Some (number ys) else None)"
  by (cases ys rule: match_Y.cases) (simp_all add: number_def)

lemma blank_not_dot: "not_dot CHR '' ''"
  by (simp add: not_dot_def)

lemma day_field_no_dot: "day_field ds \<Longrightarrow> list_all not_dot ds"
  by (cases ds rule: day_field.cases) (auto simp: decimal_not_dot blank_not_dot)

lemma month_field_no_dot: "month_field ms \<Longrightarrow> list_all not_dot ms"
  by (cases ms rule: month_field.cases) (auto simp: decimal_not_dot)

lemma year_field_length: "year_field ys \<Longrightarrow> length ys = 4"
  by (cases ys rule: year_field.cases) simp_all

lemma number_year_range: "year_field ys \<Longrightarrow> number ys \<le> 9999"
proof (cases ys rule: year_field.cases)
  case (1 a b c d)
  assume "year_field ys"
  then have "is_decimal a" "is_decimal b" "is_decimal c" "is_decimal d"
    using 1 by simp_all
  then show ?thesis
    using digit_val_range [of a] digit_val_range [of b] digit_val_range [of c] digit_val_range [of d]
    unfolding 1 number_def by simp
qed simp_all

lemma split_at_dot:
  assumes "list_all not_dot xs"
  shows "takeWhile not_dot (xs @ CHR ''.'' # rest) = xs"
    and "dropWhile not_dot (xs @ CHR ''.'' # rest) = CHR ''.'' # rest"
proof -
  have all: "\<And>x. x \<in> set xs \<Longrightarrow> not_dot x"
    using assms by (simp add: list_all_iff)
  have dot: "\<not> not_dot CHR ''.''"
    by (simp add: not_dot_def)
  show "takeWhile not_dot (xs @ CHR ''.'' # rest) = xs"
    using all dot by (simp add: takeWhile_tail)
  show "dropWhile not_dot (xs @ CHR ''.'' # rest) = CHR ''.'' # rest"
    using all dot by (simp add: dropWhile_append3)
qed

lemma strptime_fields:
  assumes "day_field ds" "month_field ms" "year_field ys"
  shows "strptime (ds @ ''.'' @ ms @ ''.'' @ ys) =
    (case match_d ds of
       None \<Rightarrow> Inl (ValueError ''time data does not match format'')
     | Some dv \<Rightarrow>
        (case match_m ms of
           None \<Rightarrow> Inl (ValueError ''time data does not match format'')
         | Some mv \<Rightarrow> date_init (number ys) mv dv))"
proof -
  note d = split_at_dot [OF day_field_no_dot [OF assms(1)]]
  note m = split_at_dot [OF month_field_no_dot [OF assms(2)]]
  have y: "match_Y (take 4 ys) = Some (number ys)" "\<not> 4 < length ys"
    using assms(3) year_field_length [OF assms(3)] by (simp_all add: match_Y_number)
  show ?thesis
    using y
    by (simp add: strptime_def d m del: match_d.simps match_m.simps match_Y.simps
        split: option.splits)
qed

lemma date_init_iff:
  "date_init y m d = Inr r \<longleftrightarrow>
     r = \<lparr>year = y, month = m, day = d\<rparr> \<and> valid_date \<lparr>year = y, month = m, day = d\<rparr>"
  unfolding date_init_def valid_date_def by auto

lemma strptime_parts:
  assumes "strptime s = Inr d"
  shows "\<exists>ds ms ys dv mv yv. s = ds @ ''.'' @ ms @ ''.'' @ ys
      \<and> match_d ds = Some dv \<and> match_m ms = Some mv \<and> match_Y ys = Some yv
      \<and> date_init yv mv dv = Inr d"
proof -
  obtain c1 r1 where r1: "dropWhile not_dot s = c1 # r1"
    using assms by (cases "dropWhile not_dot s") (simp_all add: strptime_def)
  obtain c2 r2 where r2: "dropWhile not_dot r1 = c2 # r2"
    using assms by (cases "dropWhile not_dot r1") (simp_all add: strptime_def r1)
  obtain dv where dv: "match_d (takeWhile not_dot s) = Some dv"
    using assms by (cases "match_d (takeWhile not_dot s)") (simp_all add: strptime_def r1 r2)
  obtain mv where mv: "match_m (takeWhile not_dot r1) = Some mv"
    using assms by (cases "match_m (takeWhile not_dot r1)") (simp_all add: strptime_def r1 r2 dv)
  obtain yv where yv: "match_Y (take 4 r2) = Some yv"
    using assms by (cases "match_Y (take 4 r2)") (simp_all add: strptime_def r1 r2 dv mv)
  have rest: "\<not> 4 < length r2" and init: "date_init yv mv dv = Inr d"
    using assms by (simp_all add: strptime_def r1 r2 dv mv yv split: if_splits)
  have "take 4 r2 = r2"
    using rest by simp
  then have year: "match_Y r2 = Some yv"
    using yv by simp
  have "s = takeWhile not_dot s @ ''.'' @ takeWhile not_dot r1 @ ''.'' @ r2"
    using dropWhile_dot [OF r1] dropWhile_dot [OF r2] by simp
  with dv mv year init show ?thesis
    by blast
qed

text \<open>
  The parser accepts exactly the strings of three such fields, separated by dots, whose
  numbers are a date of the calendar, and returns that date.
\<close>

lemma strptime_iff:
  "strptime s = Inr d \<longleftrightarrow>
     (\<exists>ds ms ys. s = ds @ ''.'' @ ms @ ''.'' @ ys
        \<and> day_field ds \<and> month_field ms \<and> year_field ys
        \<and> valid_date \<lparr>year = number ys, month = number ms, day = number ds\<rparr>
        \<and> d = \<lparr>year = number ys, month = number ms, day = number ds\<rparr>)"
proof
  assume "strptime s = Inr d"
  then obtain ds ms ys dv mv yv where p: "s = ds @ ''.'' @ ms @ ''.'' @ ys"
      "match_d ds = Some dv" "match_m ms = Some mv" "match_Y ys = Some yv"
      "date_init yv mv dv = Inr d"
    using strptime_parts by blast
  have day: "day_field ds" "dv = number ds"
    using p(2) unfolding match_d_number by (simp_all split: if_splits)
  have month: "month_field ms" "mv = number ms"
    using p(3) unfolding match_m_number by (simp_all split: if_splits)
  have year: "year_field ys" "yv = number ys"
    using p(4) unfolding match_Y_number by (simp_all split: if_splits)
  have "d = \<lparr>year = number ys, month = number ms, day = number ds\<rparr>"
    "valid_date \<lparr>year = number ys, month = number ms, day = number ds\<rparr>"
    using p(5) unfolding day(2) month(2) year(2) date_init_iff by simp_all
  with p(1) day(1) month(1) year(1)
  show "\<exists>ds ms ys. s = ds @ ''.'' @ ms @ ''.'' @ ys
        \<and> day_field ds \<and> month_field ms \<and> year_field ys
        \<and> valid_date \<lparr>year = number ys, month = number ms, day = number ds\<rparr>
        \<and> d = \<lparr>year = number ys, month = number ms, day = number ds\<rparr>"
    by blast
next
  assume "\<exists>ds ms ys. s = ds @ ''.'' @ ms @ ''.'' @ ys
        \<and> day_field ds \<and> month_field ms \<and> year_field ys
        \<and> valid_date \<lparr>year = number ys, month = number ms, day = number ds\<rparr>
        \<and> d = \<lparr>year = number ys, month = number ms, day = number ds\<rparr>"
  then obtain ds ms ys where p: "s = ds @ ''.'' @ ms @ ''.'' @ ys"
      "day_field ds" "month_field ms" "year_field ys"
      "valid_date \<lparr>year = number ys, month = number ms, day = number ds\<rparr>"
      "d = \<lparr>year = number ys, month = number ms, day = number ds\<rparr>"
    by blast
  have "1 \<le> number ds" "number ds \<le> 31" "1 \<le> number ms" "number ms \<le> 12"
    using p(5) days_in_month_le [of "number ys" "number ms"]
    by (simp_all add: valid_date_def)
  then have "match_d ds = Some (number ds)" "match_m ms = Some (number ms)"
    using p(2,3) by (simp_all add: match_d_number match_m_number)
  then have "strptime s = date_init (number ys) (number ms) (number ds)"
    unfolding p(1) strptime_fields [OF p(2,3,4)] by simp
  also have "\<dots> = Inr d"
    unfolding date_init_iff using p(5,6) by simp
  finally show "strptime s = Inr d" .
qed

text \<open>The three fields of a string are determined by the string.\<close>

lemma fields_unique:
  assumes "ds @ ''.'' @ ms @ ''.'' @ ys = ds' @ ''.'' @ ms' @ ''.'' @ ys'"
    and "day_field ds" "month_field ms" "day_field ds'" "month_field ms'"
  shows "ds' = ds \<and> ms' = ms \<and> ys' = ys"
proof -
  let ?s = "ds @ ''.'' @ ms @ ''.'' @ ys"
  have "takeWhile not_dot ?s = ds" "dropWhile not_dot ?s = CHR ''.'' # ms @ ''.'' @ ys"
    using split_at_dot [OF day_field_no_dot [OF assms(2)]] by simp_all
  moreover have "takeWhile not_dot ?s = ds'" "dropWhile not_dot ?s = CHR ''.'' # ms' @ ''.'' @ ys'"
    unfolding assms(1) using split_at_dot [OF day_field_no_dot [OF assms(4)]] by simp_all
  ultimately have d: "ds' = ds" and rest: "ms @ ''.'' @ ys = ms' @ ''.'' @ ys'"
    by simp_all
  let ?r = "ms @ ''.'' @ ys"
  have "takeWhile not_dot ?r = ms" "dropWhile not_dot ?r = CHR ''.'' # ys"
    using split_at_dot [OF month_field_no_dot [OF assms(3)]] by simp_all
  moreover have "takeWhile not_dot ?r = ms'" "dropWhile not_dot ?r = CHR ''.'' # ys'"
    unfolding rest using split_at_dot [OF month_field_no_dot [OF assms(5)]] by simp_all
  ultimately have "ms' = ms" "ys' = ys"
    by simp_all
  with d show ?thesis
    by simp
qed

text \<open>
  C5, as the code has it. \<open>Birthday\<close> accepts a string exactly when it consists of a
  day field, a dot, a month field, a dot and a year field whose numbers are a date of
  the calendar (year 1 to 9999, month 1 to 12, day within the month, leap years
  honoured), where the day field is one or two digits or a blank and a digit, the month
  field one or two digits and the year field four digits. For every such string the
  value stored is the string as given and the date read from it is the date of those
  three numbers. In particular a string in the exact format \<open>DD.MM.YYYY\<close> is accepted
  exactly when it is a date of the calendar; a day or month without its leading zero is
  accepted too; wrong separators, a year not of four digits and extra characters are
  refused. Every refusal is the \<open>ValueError\<close> "Invalid date format. Use DD.MM.YYYY".
\<close>

theorem Birthday_init_accepts:
  "((\<exists>b. Birthday_init s = Inr b) \<longleftrightarrow>
      (\<exists>ds ms ys. s = ds @ ''.'' @ ms @ ''.'' @ ys
         \<and> day_field ds \<and> month_field ms \<and> year_field ys
         \<and> valid_date \<lparr>year = number ys, month = number ms, day = number ds\<rparr>))
   \<and> (\<forall>ds ms ys. s = ds @ ''.'' @ ms @ ''.'' @ ys
         \<and> day_field ds \<and> month_field ms \<and> year_field ys
         \<and> valid_date \<lparr>year = number ys, month = number ms, day = number ds\<rparr> \<longrightarrow>
         Birthday_init s = Inr (Field s)
         \<and> date_obj (Field s) = Inr \<lparr>year = number ys, month = number ms, day = number ds\<rparr>)
   \<and> (\<forall>b. Birthday_init s = Inr b \<longrightarrow>
         b = Field s \<and> (\<exists>d. date_obj b = Inr d \<and> valid_date d))
   \<and> ((\<nexists>b. Birthday_init s = Inr b) \<longrightarrow>
         Birthday_init s = Inl (ValueError ''Invalid date format. Use DD.MM.YYYY''))
   \<and> (list_all is_decimal [d1, d2, m1, m2, y1, y2, y3, y4] \<longrightarrow>
        ((\<exists>b. Birthday_init [d1, d2, CHR ''.'', m1, m2, CHR ''.'', y1, y2, y3, y4] = Inr b) \<longleftrightarrow>
         valid_date
           \<lparr>year = 1000 * digit_val y1 + 100 * digit_val y2 + 10 * digit_val y3 + digit_val y4,
            month = 10 * digit_val m1 + digit_val m2,
            day = 10 * digit_val d1 + digit_val d2\<rparr>))"
proof (intro conjI)
  show "(\<exists>b. Birthday_init s = Inr b) \<longleftrightarrow>
      (\<exists>ds ms ys. s = ds @ ''.'' @ ms @ ''.'' @ ys
         \<and> day_field ds \<and> month_field ms \<and> year_field ys
         \<and> valid_date \<lparr>year = number ys, month = number ms, day = number ds\<rparr>)"
    unfolding Birthday_init_Inr strptime_iff by blast
  show "\<forall>ds ms ys. s = ds @ ''.'' @ ms @ ''.'' @ ys
         \<and> day_field ds \<and> month_field ms \<and> year_field ys
         \<and> valid_date \<lparr>year = number ys, month = number ms, day = number ds\<rparr> \<longrightarrow>
         Birthday_init s = Inr (Field s)
         \<and> date_obj (Field s) = Inr \<lparr>year = number ys, month = number ms, day = number ds\<rparr>"
  proof (intro allI impI)
    fix ds ms ys
    assume a: "s = ds @ ''.'' @ ms @ ''.'' @ ys
         \<and> day_field ds \<and> month_field ms \<and> year_field ys
         \<and> valid_date \<lparr>year = number ys, month = number ms, day = number ds\<rparr>"
    then have parsed: "strptime s = Inr \<lparr>year = number ys, month = number ms, day = number ds\<rparr>"
      unfolding strptime_iff by blast
    then have "Birthday_init s = Inr (Field s)"
      unfolding Birthday_init_Inr by blast
    moreover have "date_obj (Field s)
        = Inr \<lparr>year = number ys, month = number ms, day = number ds\<rparr>"
      using parsed by (simp add: date_obj_def)
    ultimately show "Birthday_init s = Inr (Field s)
         \<and> date_obj (Field s) = Inr \<lparr>year = number ys, month = number ms, day = number ds\<rparr>"
      by (rule conjI)
  qed
  show "\<forall>b. Birthday_init s = Inr b \<longrightarrow>
         b = Field s \<and> (\<exists>d. date_obj b = Inr d \<and> valid_date d)"
  proof (intro allI impI)
    fix b
    assume "Birthday_init s = Inr b"
    then obtain d where d: "strptime s = Inr d" and b: "b = Field s"
      unfolding Birthday_init_Inr by blast
    then show "b = Field s \<and> (\<exists>d. date_obj b = Inr d \<and> valid_date d)"
      using strptime_shape(1) [OF d] by (simp add: date_obj_def)
  qed
  show "(\<nexists>b. Birthday_init s = Inr b) \<longrightarrow>
         Birthday_init s = Inl (ValueError ''Invalid date format. Use DD.MM.YYYY'')"
  proof
    assume none: "\<nexists>b. Birthday_init s = Inr b"
    then obtain e where "Birthday_init s = Inl e"
      by (cases "Birthday_init s") auto
    then show "Birthday_init s = Inl (ValueError ''Invalid date format. Use DD.MM.YYYY'')"
      using Birthday_init_Inl by blast
  qed
  show "list_all is_decimal [d1, d2, m1, m2, y1, y2, y3, y4] \<longrightarrow>
        ((\<exists>b. Birthday_init [d1, d2, CHR ''.'', m1, m2, CHR ''.'', y1, y2, y3, y4] = Inr b) \<longleftrightarrow>
         valid_date
           \<lparr>year = 1000 * digit_val y1 + 100 * digit_val y2 + 10 * digit_val y3 + digit_val y4,
            month = 10 * digit_val m1 + digit_val m2,
            day = 10 * digit_val d1 + digit_val d2\<rparr>)"
  proof
    assume "list_all is_decimal [d1, d2, m1, m2, y1, y2, y3, y4]"
    then have dec: "is_decimal d1" "is_decimal d2" "is_decimal m1" "is_decimal m2"
      "is_decimal y1" "is_decimal y2" "is_decimal y3" "is_decimal y4"
      by simp_all
    show "(\<exists>b. Birthday_init [d1, d2, CHR ''.'', m1, m2, CHR ''.'', y1, y2, y3, y4] = Inr b) \<longleftrightarrow>
         valid_date
           \<lparr>year = 1000 * digit_val y1 + 100 * digit_val y2 + 10 * digit_val y3 + digit_val y4,
            month = 10 * digit_val m1 + digit_val m2,
            day = 10 * digit_val d1 + digit_val d2\<rparr>"
      unfolding Birthday_init_Inr padded_date [OF dec, symmetric] by simp
  qed
qed

text \<open>
  The theorem at \<open>1.6.1990\<close> and, with a blank before the day, at \<open> 5.12.2000\<close>, with
  \<open>15.06.1990\<close> and refused strings beside them: a wrong separator, the 31st of April,
  a 13th month, a year of two digits, a character too many.
\<close>

theorem Birthday_init_accepts_witness:
  "''1.6.1990'' = ''1'' @ ''.'' @ ''6'' @ ''.'' @ ''1990''
   \<and> day_field ''1'' \<and> month_field ''6'' \<and> year_field ''1990''
   \<and> valid_date \<lparr>year = number ''1990'', month = number ''6'', day = number ''1''\<rparr>
   \<and> Birthday_init ''1.6.1990'' = Inr (Field ''1.6.1990'')
   \<and> date_obj (Field ''1.6.1990'') = Inr \<lparr>year = 1990, month = 6, day = 1\<rparr>
   \<and> day_field '' 5''
   \<and> Birthday_init '' 5.12.2000'' = Inr (Field '' 5.12.2000'')
   \<and> date_obj (Field '' 5.12.2000'') = Inr \<lparr>year = 2000, month = 12, day = 5\<rparr>
   \<and> list_all is_decimal ''15061990''
   \<and> valid_date \<lparr>year = 1990, month = 6, day = 15\<rparr>
   \<and> Birthday_init ''15.06.1990'' = Inr (Field ''15.06.1990'')
   \<and> date_obj (Field ''15.06.1990'') = Inr \<lparr>year = 1990, month = 6, day = 15\<rparr>
   \<and> Birthday_init ''15-06-1990'' = Inl (ValueError ''Invalid date format. Use DD.MM.YYYY'')
   \<and> Birthday_init ''31.04.2000'' = Inl (ValueError ''Invalid date format. Use DD.MM.YYYY'')
   \<and> Birthday_init ''15.13.2000'' = Inl (ValueError ''Invalid date format. Use DD.MM.YYYY'')
   \<and> Birthday_init ''15.06.90'' = Inl (ValueError ''Invalid date format. Use DD.MM.YYYY'')
   \<and> Birthday_init ''15.06.1990x'' = Inl (ValueError ''Invalid date format. Use DD.MM.YYYY'')"
proof -
  have split1: "''1.6.1990'' = ''1'' @ ''.'' @ ''6'' @ ''.'' @ ''1990''"
    by simp
  have fields1: "day_field ''1''" "month_field ''6''" "year_field ''1990''"
    by code_simp+
  have nums1: "number ''1990'' = 1990" "number ''6'' = 6" "number ''1'' = 1"
    by code_simp+
  have valid1: "valid_date \<lparr>year = number ''1990'', month = number ''6'', day = number ''1''\<rparr>"
    by code_simp
  have one: "Birthday_init ''1.6.1990'' = Inr (Field ''1.6.1990'')
      \<and> date_obj (Field ''1.6.1990'')
          = Inr \<lparr>year = number ''1990'', month = number ''6'', day = number ''1''\<rparr>"
    by (rule Birthday_init_accepts [where s = "''1.6.1990''", THEN conjunct2, THEN conjunct1,
          rule_format, of "''1''" "''6''" "''1990''"])
      (intro conjI split1 fields1 valid1)
  have split2: "'' 5.12.2000'' = '' 5'' @ ''.'' @ ''12'' @ ''.'' @ ''2000''"
    by simp
  have fields2: "day_field '' 5''" "month_field ''12''" "year_field ''2000''"
    by code_simp+
  have nums2: "number ''2000'' = 2000" "number ''12'' = 12" "number '' 5'' = 5"
    by code_simp+
  have valid2: "valid_date \<lparr>year = number ''2000'', month = number ''12'', day = number '' 5''\<rparr>"
    by code_simp
  have two: "Birthday_init '' 5.12.2000'' = Inr (Field '' 5.12.2000'')
      \<and> date_obj (Field '' 5.12.2000'')
          = Inr \<lparr>year = number ''2000'', month = number ''12'', day = number '' 5''\<rparr>"
    by (rule Birthday_init_accepts [where s = "'' 5.12.2000''", THEN conjunct2, THEN conjunct1,
          rule_format, of "'' 5''" "''12''" "''2000''"])
      (intro conjI split2 fields2 valid2)
  have dec: "list_all is_decimal ''15061990''"
    by code_simp
  have valid: "valid_date \<lparr>year = 1990, month = 6, day = 15\<rparr>"
    by code_simp
  have ok: "Birthday_init ''15.06.1990'' = Inr (Field ''15.06.1990'')"
    "date_obj (Field ''15.06.1990'') = Inr \<lparr>year = 1990, month = 6, day = 15\<rparr>"
    by code_simp+
  have bad: "Birthday_init ''15-06-1990'' = Inl (ValueError ''Invalid date format. Use DD.MM.YYYY'')"
    "Birthday_init ''31.04.2000'' = Inl (ValueError ''Invalid date format. Use DD.MM.YYYY'')"
    "Birthday_init ''15.13.2000'' = Inl (ValueError ''Invalid date format. Use DD.MM.YYYY'')"
    "Birthday_init ''15.06.90'' = Inl (ValueError ''Invalid date format. Use DD.MM.YYYY'')"
    "Birthday_init ''15.06.1990x'' = Inl (ValueError ''Invalid date format. Use DD.MM.YYYY'')"
    by code_simp+
  from split1 fields1 valid1 one [unfolded nums1] fields2(1) two [unfolded nums2] dec valid ok bad
  show ?thesis
    by (intro conjI) (erule conjunct1 conjunct2 | assumption)+
qed

text \<open>
  C5 as stated fails: \<open>1.6.1990\<close> has no zero-padding, is not in the exact format
  \<open>DD.MM.YYYY\<close>, and is accepted.
\<close>

theorem Birthday_init_unpadded_counterexample:
  "Birthday_init ''1.6.1990'' = Inr (Field ''1.6.1990'')
   \<and> date_obj (Field ''1.6.1990'') = Inr \<lparr>year = 1990, month = 6, day = 1\<rparr>
   \<and> length ''1.6.1990'' = 8"
  by code_simp

section \<open>The upcoming birthdays: results and calls that return\<close>

text \<open>
  Away from 29 February the occurrence exists in every year, and the weekend shift
  stays within the calendar when the year of today is at most 9997.
\<close>

lemma replace_year_other_day:
  assumes "valid_date born" "\<not> (month born = 2 \<and> day born = 29)" "1 \<le> y" "y \<le> 9999"
  shows "replace_year born y = Inr \<lparr>year = y, month = month born, day = day born\<rparr>"
proof -
  have "day born \<le> days_in_month y (month born)"
    using assms(1,2) unfolding valid_date_def days_in_month_def by (auto split: if_splits)
  then show ?thesis
    using assms unfolding replace_year_def date_init_def valid_date_def by simp
qed

lemma occurrence_other_day:
  assumes "valid_date born" "\<not> (month born = 2 \<and> day born = 29)"
    "1 \<le> year today" "year today \<le> 9997"
  shows "\<exists>occ. occurrence born today = Inr occ \<and> valid_date occ \<and> year occ \<le> 9998"
proof -
  let ?cur = "\<lparr>year = year today, month = month born, day = day born\<rparr>"
  let ?nxt = "\<lparr>year = year today + 1, month = month born, day = day born\<rparr>"
  have cur: "replace_year born (year today) = Inr ?cur"
    using assms by (intro replace_year_other_day) simp_all
  have "replace_year born (year today + 1) = Inr ?nxt"
    using assms by (intro replace_year_other_day) simp_all
  then have nxt: "replace_year ?cur (year today + 1) = Inr ?nxt"
    by (simp add: replace_year_def)
  have "occurrence born today = Inr (if date_less ?cur today then ?nxt else ?cur)"
    by (simp add: occurrence_def cur nxt)
  moreover have "year (if date_less ?cur today then ?nxt else ?cur) \<le> 9998"
    using assms(4) by simp
  ultimately show ?thesis
    using occurrence_spec(2) by metis
qed

lemma year_after_two_days:
  assumes "valid_date d"
  shows "year (next_day d) \<le> year d + 1" and "year (next_day (next_day d)) \<le> year d + 1"
proof -
  have dim: "1 < days_in_month y m" for y m
    by (simp add: days_in_month_def)
  show "year (next_day d) \<le> year d + 1"
    by (simp add: next_day_def)
  show "year (next_day (next_day d)) \<le> year d + 1"
  proof (cases "year (next_day d) = year d")
    case True
    moreover have "year (next_day (next_day d)) \<le> year (next_day d) + 1"
      by (simp add: next_day_def)
    ultimately show ?thesis
      by simp
  next
    case False
    then have "next_day d = \<lparr>year = year d + 1, month = 1, day = 1\<rparr>"
      by (auto simp: next_day_def split: if_splits)
    then show ?thesis
      using dim [of "year d + 1" 1] by (simp add: next_day_def)
  qed
qed

lemma shift_weekend_returns:
  assumes "valid_date occ" "year occ \<le> 9998"
  shows "\<exists>shifted. shift_weekend occ = Inr shifted"
proof -
  have "year (next_day occ) \<le> 9999" "year (next_day (next_day occ)) \<le> 9999"
    using year_after_two_days [OF assms(1)] assms(2) by simp_all
  then show ?thesis
    by (simp add: shift_weekend_def add_days_def numeral_2_eq_2)
qed

lemma upcoming_loop_returns:
  assumes "1 \<le> year today" "year today \<le> 9997"
    and "\<And>r b. r \<in> set rs \<Longrightarrow> birthday r = Some b \<Longrightarrow>
           \<exists>born. date_obj b = Inr born \<and> \<not> (month born = 2 \<and> day born = 29)"
  shows "\<exists>res. upcoming_loop days today rs acc = Inr res"
  using assms(3)
proof (induction rs arbitrary: acc)
  case Nil
  show ?case by simp
next
  case (Cons r rs)
  have rest: "\<exists>res. upcoming_loop days today rs acc' = Inr res" for acc'
  proof (rule Cons.IH)
    fix x b
    assume "x \<in> set rs" "birthday x = Some b"
    then show "\<exists>born. date_obj b = Inr born \<and> \<not> (month born = 2 \<and> day born = 29)"
      using Cons.prems [of x b] by simp
  qed
  show ?case
  proof (cases "birthday r")
    case None
    then show ?thesis
      using rest by simp
  next
    case (Some b)
    then obtain born where born: "date_obj b = Inr born" "\<not> (month born = 2 \<and> day born = 29)"
      using Cons.prems [of r b] by auto
    then have "valid_date born"
      using strptime_shape(1) by (simp add: date_obj_def)
    then obtain occ where occ: "occurrence born today = Inr occ" "valid_date occ" "year occ \<le> 9998"
      using occurrence_other_day [OF _ born(2) assms(1,2)] by blast
    obtain shifted where sh: "shift_weekend occ = Inr shifted"
      using shift_weekend_returns [OF occ(2,3)] by blast
    show ?thesis
      using rest by (simp add: Some born(1) occ(1) sh)
  qed
qed

text \<open>
  C1. Whenever \<open>get_upcoming_birthdays\<close> returns, its result lists, in the order of the
  book, exactly the records inside the window: a record with a birthday is listed if
  and only if the occurrence of its birthday, this year or next year when this year's
  lies before today, is at least 0 and at most \<open>days\<close> days after today, both bounds
  included; a record without a birthday is never listed. With names that differ from
  record to record, a name is in the result exactly when its record is inside the
  window. The occurrence that the code computes is the specification's. The call
  returns whenever no birthday of the book is a 29 February and the year of today is
  between 1 and 9997.
\<close>

theorem upcoming_birthdays_window:
  "(\<forall>res. get_upcoming_birthdays data days today = Inr res \<longrightarrow>
      map contact res
               = map (\<lambda>r. fvalue (name r)) (filter (in_window days today) (map snd data))
             \<and> (distinct (map (\<lambda>r. fvalue (name r)) (map snd data)) \<longrightarrow>
                  (\<forall>r\<in>set (map snd data).
                     fvalue (name r) \<in> contact ` set res \<longleftrightarrow> in_window days today r))
             \<and> (\<forall>r\<in>set (map snd data). birthday r = None \<longrightarrow> \<not> in_window days today r)
             \<and> (\<forall>r\<in>set (map snd data). \<forall>b. birthday r = Some b \<longrightarrow>
                  (\<exists>born. date_obj b = Inr born
                     \<and> occurrence born today = Inr (spec_occurrence born today)
                     \<and> (in_window days today r \<longleftrightarrow>
                          0 \<le> days_between (spec_occurrence born today) today
                          \<and> days_between (spec_occurrence born today) today \<le> days))))
   \<and> (1 \<le> year today \<and> year today \<le> 9997
        \<and> (\<forall>r\<in>set (map snd data). \<forall>b. birthday r = Some b \<longrightarrow>
              (\<exists>born. date_obj b = Inr born \<and> \<not> (month born = 2 \<and> day born = 29))) \<longrightarrow>
        (\<exists>res. get_upcoming_birthdays data days today = Inr res))"
proof (rule conjI)
  show "(\<forall>res. get_upcoming_birthdays data days today = Inr res \<longrightarrow>
      map contact res
               = map (\<lambda>r. fvalue (name r)) (filter (in_window days today) (map snd data))
             \<and> (distinct (map (\<lambda>r. fvalue (name r)) (map snd data)) \<longrightarrow>
                  (\<forall>r\<in>set (map snd data).
                     fvalue (name r) \<in> contact ` set res \<longleftrightarrow> in_window days today r))
             \<and> (\<forall>r\<in>set (map snd data). birthday r = None \<longrightarrow> \<not> in_window days today r)
             \<and> (\<forall>r\<in>set (map snd data). \<forall>b. birthday r = Some b \<longrightarrow>
                  (\<exists>born. date_obj b = Inr born
                     \<and> occurrence born today = Inr (spec_occurrence born today)
                     \<and> (in_window days today r \<longleftrightarrow>
                          0 \<le> days_between (spec_occurrence born today) today
                          \<and> days_between (spec_occurrence born today) today \<le> days))))"
    by (intro allI impI, erule upcoming_window_of_result)
next
  show "(1 \<le> year today \<and> year today \<le> 9997
        \<and> (\<forall>r\<in>set (map snd data). \<forall>b. birthday r = Some b \<longrightarrow>
              (\<exists>born. date_obj b = Inr born \<and> \<not> (month born = 2 \<and> day born = 29))) \<longrightarrow>
        (\<exists>res. get_upcoming_birthdays data days today = Inr res))"
  proof (rule impI)
    assume good: "1 \<le> year today \<and> year today \<le> 9997
      \<and> (\<forall>r\<in>set (map snd data). \<forall>b. birthday r = Some b \<longrightarrow>
            (\<exists>born. date_obj b = Inr born \<and> \<not> (month born = 2 \<and> day born = 29)))"
    then have "\<exists>res. upcoming_loop days today (map snd data) [] = Inr res"
      by (intro upcoming_loop_returns) blast+
    then show "\<exists>res. get_upcoming_birthdays data days today = Inr res"
      by (simp add: get_upcoming_birthdays_def)
  qed
qed

text \<open>
  The theorem on 10 June 2024 with the window of 7 days: birthdays on 10 June (day 0)
  and 17 June (day 7) are listed, one on 18 June (day 8) and a record without birthday
  are not.
\<close>

theorem upcoming_birthdays_window_witness:
  "get_upcoming_birthdays
     [(''Ed'', \<lparr>name = Field ''Ed'', phones = [], birthday = Some (Field ''10.06.1990'')\<rparr>),
      (''Di'', \<lparr>name = Field ''Di'', phones = [], birthday = Some (Field ''17.06.1990'')\<rparr>),
      (''Fy'', \<lparr>name = Field ''Fy'', phones = [], birthday = Some (Field ''18.06.1990'')\<rparr>),
      (''Gi'', \<lparr>name = Field ''Gi'', phones = [Field ''0123456789''], birthday = None\<rparr>)]
     7 \<lparr>year = 2024, month = 6, day = 10\<rparr>
   = Inr [\<lparr>contact = ''Ed'', congratulation_date = ''10.06.2024''\<rparr>,
          \<lparr>contact = ''Di'', congratulation_date = ''17.06.2024''\<rparr>]
   \<and> in_window 7 \<lparr>year = 2024, month = 6, day = 10\<rparr>
         \<lparr>name = Field ''Ed'', phones = [], birthday = Some (Field ''10.06.1990'')\<rparr>
   \<and> in_window 7 \<lparr>year = 2024, month = 6, day = 10\<rparr>
         \<lparr>name = Field ''Di'', phones = [], birthday = Some (Field ''17.06.1990'')\<rparr>
   \<and> \<not> in_window 7 \<lparr>year = 2024, month = 6, day = 10\<rparr>
         \<lparr>name = Field ''Fy'', phones = [], birthday = Some (Field ''18.06.1990'')\<rparr>
   \<and> \<not> in_window 7 \<lparr>year = 2024, month = 6, day = 10\<rparr>
         \<lparr>name = Field ''Gi'', phones = [Field ''0123456789''], birthday = None\<rparr>"
proof -
  let ?ed = "\<lparr>name = Field ''Ed'', phones = [], birthday = Some (Field ''10.06.1990'')\<rparr>"
  let ?di = "\<lparr>name = Field ''Di'', phones = [], birthday = Some (Field ''17.06.1990'')\<rparr>"
  let ?fy = "\<lparr>name = Field ''Fy'', phones = [], birthday = Some (Field ''18.06.1990'')\<rparr>"
  let ?gi = "\<lparr>name = Field ''Gi'', phones = [Field ''0123456789''], birthday = None\<rparr>"
  let ?data = "[(''Ed'', ?ed), (''Di'', ?di), (''Fy'', ?fy), (''Gi'', ?gi)]"
  let ?today = "\<lparr>year = 2024, month = 6, day = 10\<rparr>"
  let ?res = "[\<lparr>contact = ''Ed'', congratulation_date = ''10.06.2024''\<rparr>,
               \<lparr>contact = ''Di'', congratulation_date = ''17.06.2024''\<rparr>]"
  have run: "get_upcoming_birthdays ?data 7 ?today = Inr ?res"
    by code_simp
  have names: "distinct (map (\<lambda>r. fvalue (name r)) (map snd ?data))"
    by simp
  have "\<forall>r\<in>set (map snd ?data).
      fvalue (name r) \<in> contact ` set ?res \<longleftrightarrow> in_window 7 ?today r"
    by (rule mp [OF upcoming_birthdays_window
          [THEN conjunct1, rule_format, OF run, THEN conjunct2, THEN conjunct1] names])
  then have "in_window 7 ?today ?ed" "in_window 7 ?today ?di"
    "\<not> in_window 7 ?today ?fy" "\<not> in_window 7 ?today ?gi"
    by simp_all
  with run show ?thesis
    by (intro conjI)
qed

end
